theory Spec2Isabelle
  imports Complex_Main
begin

section \<open>JavaScript values and documents\<close>

text \<open>
  The values the seed script, the router and the login page handle. An object is an
  association list of its properties in the order of the object literal; an \<open>ObjectId\<close>
  is the \<open>_id\<close> the driver gives a stored document, a \<open>Date\<close> is a time in
  milliseconds since the epoch.
\<close>

datatype jsval =
    Undefined
  | Null
  | Bool bool
  | Num int
  | Str string
  | ObjectId nat
  | Date int
  | Arr "jsval list"
  | Obj "(string \<times> jsval) list"

type_synonym doc = "(string \<times> jsval) list"

text \<open>Reading a property of an object: \<open>o.k\<close> is \<open>undefined\<close> when the object has no \<open>k\<close>.\<close>

definition prop_of :: "doc \<Rightarrow> string \<Rightarrow> jsval" where
  "prop_of d k = (case map_of d k of None \<Rightarrow> Undefined | Some v \<Rightarrow> v)"

text \<open>\<open>arr[i]\<close>: \<open>undefined\<close> outside the array.\<close>

definition js_index :: "'a list \<Rightarrow> int \<Rightarrow> 'a option" where
  "js_index arr i = (if 0 \<le> i \<and> i < int (length arr) then Some (arr ! nat i) else None)"

text \<open>A string or \<open>undefined\<close> inside a template literal or a field.\<close>

definition tmpl :: "string option \<Rightarrow> string" where
  "tmpl v = (case v of None \<Rightarrow> ''undefined'' | Some s \<Rightarrow> s)"

definition str_val :: "string option \<Rightarrow> jsval" where
  "str_val v = (case v of None \<Rightarrow> Undefined | Some s \<Rightarrow> Str s)"

section \<open>The seed script (mini-crm-backend/seed/seed.js)\<close>

subsection \<open>The environment: \<open>Math.random\<close> and \<open>Date.now\<close>\<close>

text \<open>
  \<open>random env k\<close> is what the \<open>k\<close>-th call of \<open>Math.random()\<close> returns (a double, so a
  rational; the language guarantees \<open>0 \<le> r < 1\<close>, which \<open>unit_random\<close> states), and
  \<open>now env i\<close> what \<open>Date.now()\<close> returns in round \<open>i\<close> of the task loop. The
  functions that draw random numbers take the count of earlier calls and return the new count.
  Products of a random number are taken exactly, not rounded to a double.
\<close>

record env =
  random :: "nat \<Rightarrow> rat"
  now :: "nat \<Rightarrow> int"

definition unit_random :: "env \<Rightarrow> bool" where
  "unit_random e = (\<forall>k. 0 \<le> random e k \<and> random e k < 1)"

definition rand :: "env \<Rightarrow> 'a list \<Rightarrow> nat \<Rightarrow> 'a option \<times> nat" where
  "rand e arr k = (js_index arr \<lfloor>random e k * of_nat (length arr)\<rfloor>, Suc k)"

definition first :: "string list" where
  "first = [''Alex'', ''Jordan'', ''Taylor'', ''Sam'', ''Chris'', ''Morgan'', ''Priya'',
            ''Aisha'', ''Rahul'', ''Ishan'', ''Neha'', ''Riya'']"

definition last_names :: "string list" where
  "last_names = [''Sharma'', ''Patel'', ''Singh'', ''Khan'', ''Gupta'', ''Verma'', ''Doe'',
                 ''Lee'', ''Kim'', ''Brown'', ''Garcia'', ''Miller'']"

definition name :: "env \<Rightarrow> nat \<Rightarrow> string \<times> nat" where
  "name e k =
     (let (f, k1) = rand e first k;
          (l, k2) = rand e last_names k1
      in (tmpl f @ '' '' @ tmpl l, k2))"

definition domains :: "string list" where
  "domains = [''example.com'', ''mail.com'', ''corp.co'', ''test.org'']"

definition lower_char :: "char \<Rightarrow> char" where
  "lower_char c =
     (let n = (of_char c :: int) in if 65 \<le> n \<and> n \<le> 90 then char_of (n + 32) else c)"

definition toLowerCase :: "string \<Rightarrow> string" where
  "toLowerCase s = map lower_char s"

definition is_space :: "char \<Rightarrow> bool" where
  "is_space c = ((of_char c :: int) \<in> {9, 10, 11, 12, 13, 32})"

text \<open>
  \<open>s.replace(/\s+/g, '.')\<close>: every maximal run of white space becomes one dot. The flag
  says that the character before was white space, already replaced. Strings are ASCII here
  (the names the script draws are), so \<open>toLowerCase\<close> maps A to Z and white space is
  tab, line feed, vertical tab, form feed, carriage return and space.
\<close>

fun replace_ws :: "bool \<Rightarrow> string \<Rightarrow> string" where
  "replace_ws run [] = []"
| "replace_ws run (c # cs) =
     (if is_space c then (if run then replace_ws True cs else CHR ''.'' # replace_ws True cs)
      else c # replace_ws False cs)"

definition email :: "env \<Rightarrow> string \<Rightarrow> nat \<Rightarrow> string \<times> nat" where
  "email e n k =
     (let (d, k1) = rand e domains k
      in (replace_ws False (toLowerCase n) @ ''@'' @ tmpl d, k1))"

text \<open>The decimal digits of a number that is not negative, and \<open>String(i)\<close> of an integer.\<close>

function digits :: "int \<Rightarrow> string" where
  "digits i =
     (if i < 10 then [char_of (48 + i)] else digits (i div 10) @ [char_of (48 + i mod 10)])"
  by pat_completeness auto
termination
  by (relation "measure nat") auto

definition show_int :: "int \<Rightarrow> string" where
  "show_int i = (if i < 0 then ''-'' @ digits (- i) else digits i)"

definition phone :: "env \<Rightarrow> nat \<Rightarrow> string \<times> nat" where
  "phone e k = (''+91'' @ show_int \<lfloor>6000000000 + random e k * 3999999999\<rfloor>, Suc k)"

subsection \<open>The database: collections behind Mongoose models\<close>

text \<open>
  A collection is the list of its documents in insertion order; the script uses four of the
  five (the activity log is the fifth). The schemas
  (src/models) are not part of the sources: a stored document is the object handed to
  the model, with the \<open>_id\<close> the driver generates (\<open>next_id\<close>, never reused) in front.
  Every database call is taken to succeed; a call that fails ends the script in its
  \<open>catch\<close> handler.
\<close>

datatype model = User | Lead | Customer | Task | Activity

record db =
  coll :: "model \<Rightarrow> doc list"
  next_id :: nat

definition deleteMany :: "model \<Rightarrow> db \<Rightarrow> db" where
  "deleteMany m d = d\<lparr>coll := (coll d)(m := [])\<rparr>"

definition create :: "model \<Rightarrow> doc \<Rightarrow> db \<Rightarrow> doc \<times> db" where
  "create m obj d =
     (let stored = (''_id'', ObjectId (next_id d)) # obj
      in (stored, d\<lparr>coll := (coll d)(m := coll d m @ [stored]), next_id := Suc (next_id d)\<rparr>))"

fun insertMany :: "model \<Rightarrow> doc list \<Rightarrow> db \<Rightarrow> doc list \<times> db" where
  "insertMany m [] d = ([], d)"
| "insertMany m (obj # objs) d =
     (let (stored, d1) = create m obj d;
          (rest, d2) = insertMany m objs d1
      in (stored # rest, d2))"

text \<open>\<open>Model.findOne()\<close>: the first document of the collection, \<open>null\<close> when it is empty.\<close>

definition findOne :: "model \<Rightarrow> db \<Rightarrow> doc option" where
  "findOne m d = (case coll d m of [] \<Rightarrow> None | x # _ \<Rightarrow> Some x)"

subsection \<open>The three loops\<close>

definition statuses :: "string list" where
  "statuses = [''New'', ''In Progress'', ''Closed Won'', ''Closed Lost'']"

definition sources :: "string list" where
  "sources = [''Website'', ''Referral'', ''Cold Call'', ''LinkedIn'', ''Email'']"

text \<open>One round of the lead loop: the object pushed in round \<open>i\<close>.\<close>

definition lead_obj :: "env \<Rightarrow> doc \<Rightarrow> doc \<Rightarrow> nat \<Rightarrow> nat \<Rightarrow> doc \<times> nat" where
  "lead_obj e agent1 agent2 i k =
     (let (n, k1) = name e k;
          assignedAgent = (if i mod 2 = 0 then prop_of agent1 ''_id'' else prop_of agent2 ''_id'');
          (em, k2) = email e n k1;
          (ph, k3) = phone e k2;
          (st, k4) = rand e statuses k3;
          (so, k5) = rand e sources k4
      in ([(''name'', Str n), (''email'', Str em), (''phone'', Str ph),
           (''status'', str_val st), (''source'', str_val so),
           (''assignedAgent'', assignedAgent),
           (''history'', Arr [Obj [(''action'', Str ''seeded'')]])], k5))"

function leads_loop :: "env \<Rightarrow> doc \<Rightarrow> doc \<Rightarrow> nat \<Rightarrow> doc list \<Rightarrow> nat \<Rightarrow> doc list \<times> nat" where
  "leads_loop e agent1 agent2 i leads k =
     (if i < 10 then
        (let (obj, k1) = lead_obj e agent1 agent2 i k
         in leads_loop e agent1 agent2 (Suc i) (leads @ [obj]) k1)
      else (leads, k))"
  by pat_completeness auto
termination
  by (relation "measure (\<lambda>(e, a1, a2, i, leads, k). 10 - i)") auto

definition companies :: "string list" where
  "companies = [''Acme Inc'', ''Globex'', ''Initech'', ''Umbrella'', ''Stark Industries'']"

definition customer_obj :: "env \<Rightarrow> doc \<Rightarrow> doc \<Rightarrow> nat \<Rightarrow> nat \<Rightarrow> doc \<times> nat" where
  "customer_obj e agent1 agent2 i k =
     (let (n, k1) = name e k;
          owner = (if i mod 2 = 0 then prop_of agent1 ''_id'' else prop_of agent2 ''_id'');
          (co, k2) = rand e companies k1;
          (em, k3) = email e n k2;
          (ph, k4) = phone e k3
      in ([(''name'', Str n), (''company'', str_val co), (''email'', Str em),
           (''phone'', Str ph), (''owner'', owner), (''tags'', Arr [Str ''vip''])], k4))"

function customers_loop ::
  "env \<Rightarrow> doc \<Rightarrow> doc \<Rightarrow> nat \<Rightarrow> doc list \<Rightarrow> nat \<Rightarrow> doc list \<times> nat" where
  "customers_loop e agent1 agent2 i customers k =
     (if i < 5 then
        (let (obj, k1) = customer_obj e agent1 agent2 i k
         in customers_loop e agent1 agent2 (Suc i) (customers @ [obj]) k1)
      else (customers, k))"
  by pat_completeness auto
termination
  by (relation "measure (\<lambda>(e, a1, a2, i, customers, k). 5 - i)") auto

datatype error = TypeError

text \<open>
  \<open>related\<close> of round \<open>i\<close>: the tag and the id. Reading \<open>_id\<close> of \<open>null\<close> (no lead
  found) or of \<open>undefined\<close> (no inserted customer at that index) throws.
\<close>

definition related :: "db \<Rightarrow> doc list \<Rightarrow> nat \<Rightarrow> error + (string \<times> jsval)" where
  "related d insertedCustomers i =
     (if i mod 2 = 0 then
        (case findOne Lead d of
           None \<Rightarrow> Inl TypeError
         | Some l \<Rightarrow> Inr (''Lead'', prop_of l ''_id''))
      else
        (case js_index insertedCustomers (int (i mod length insertedCustomers)) of
           None \<Rightarrow> Inl TypeError
         | Some c \<Rightarrow> Inr (''Customer'', prop_of c ''_id'')))"

definition task_statuses :: "string list" where
  "task_statuses = [''Open'', ''In Progress'', ''Done'']"

definition priorities :: "string list" where
  "priorities = [''Low'', ''Medium'', ''High'']"

definition task_obj ::
  "env \<Rightarrow> db \<Rightarrow> doc \<Rightarrow> doc \<Rightarrow> doc list \<Rightarrow> nat \<Rightarrow> nat \<Rightarrow> error + (doc \<times> nat)" where
  "task_obj e d agent1 agent2 insertedCustomers i k =
     (let owner = (if i mod 2 = 0 then prop_of agent1 ''_id'' else prop_of agent2 ''_id'')
      in case related d insertedCustomers i of
           Inl err \<Rightarrow> Inl err
         | Inr (rtype, rid) \<Rightarrow>
             (let due = Date (now e i + (int i - 3) * 24 * 60 * 60 * 1000);
                  (st, k1) = rand e task_statuses k;
                  (pr, k2) = rand e priorities k1
              in Inr ([(''title'', Str (''Follow up '' @ show_int (int i + 1))),
                       (''dueDate'', due), (''status'', str_val st),
                       (''priority'', str_val pr), (''relatedType'', Str rtype),
                       (''relatedId'', rid), (''owner'', owner)], k2)))"

function tasks_loop ::
  "env \<Rightarrow> db \<Rightarrow> doc \<Rightarrow> doc \<Rightarrow> doc list \<Rightarrow> nat \<Rightarrow> doc list \<Rightarrow> nat \<Rightarrow> error + (doc list \<times> nat)"
  where
  "tasks_loop e d agent1 agent2 insertedCustomers i tasks k =
     (if i < 8 then
        (case task_obj e d agent1 agent2 insertedCustomers i k of
           Inl err \<Rightarrow> Inl err
         | Inr (obj, k1) \<Rightarrow>
             tasks_loop e d agent1 agent2 insertedCustomers (Suc i) (tasks @ [obj]) k1)
      else Inr (tasks, k))"
  by pat_completeness auto
termination
  by (relation "measure (\<lambda>(e, d, a1, a2, cs, i, tasks, k). 8 - i)") auto

subsection \<open>The script\<close>

definition admin_obj :: doc where
  "admin_obj = [(''name'', Str ''Admin User''), (''email'', Str ''admin@crm.com''),
                (''password'', Str ''Admin@123''), (''role'', Str ''admin'')]"

definition agent1_obj :: doc where
  "agent1_obj = [(''name'', Str ''Agent One''), (''email'', Str ''agent1@crm.com''),
                 (''password'', Str ''Agent@123''), (''role'', Str ''agent'')]"

definition agent2_obj :: doc where
  "agent2_obj = [(''name'', Str ''Agent Two''), (''email'', Str ''agent2@crm.com''),
                 (''password'', Str ''Agent@123''), (''role'', Str ''agent'')]"

text \<open>
  \<open>Inr\<close> is the database when the script exits with 0, \<open>Inl\<close> the exception its
  \<open>catch\<close> handler logs before it exits with 1.
\<close>

definition seed :: "env \<Rightarrow> db \<Rightarrow> error + db" where
  "seed e d0 =
     (let d1 = deleteMany Task (deleteMany Customer (deleteMany Lead (deleteMany User d0)));
          (admin, d2) = create User admin_obj d1;
          (agent1, d3) = create User agent1_obj d2;
          (agent2, d4) = create User agent2_obj d3;
          (leads, k1) = leads_loop e agent1 agent2 0 [] 0;
          (insertedLeads, d5) = insertMany Lead leads d4;
          (customers, k2) = customers_loop e agent1 agent2 0 [] k1;
          (insertedCustomers, d6) = insertMany Customer customers d5
      in case tasks_loop e d6 agent1 agent2 insertedCustomers 0 [] k2 of
           Inl err \<Rightarrow> Inl err
         | Inr (tasks, k3) \<Rightarrow> Inr (snd (insertMany Task tasks d6)))"

subsection \<open>What the script stores\<close>

text \<open>
  \<open>stamp n objs\<close> are the documents \<open>insertMany\<close> stores for \<open>objs\<close> when the next
  free id is \<open>n\<close>, and \<open>users_at n\<close> the three users the script creates then.
\<close>

fun stamp :: "nat \<Rightarrow> doc list \<Rightarrow> doc list" where
  "stamp n [] = []"
| "stamp n (obj # objs) = ((''_id'', ObjectId n) # obj) # stamp (Suc n) objs"

definition users_at :: "nat \<Rightarrow> doc list" where
  "users_at n = [(''_id'', ObjectId n) # admin_obj, (''_id'', ObjectId (n + 1)) # agent1_obj,
                 (''_id'', ObjectId (n + 2)) # agent2_obj]"

definition agent1_at :: "nat \<Rightarrow> doc" where
  "agent1_at n = (''_id'', ObjectId (n + 1)) # agent1_obj"

definition agent2_at :: "nat \<Rightarrow> doc" where
  "agent2_at n = (''_id'', ObjectId (n + 2)) # agent2_obj"

definition leads_at :: "env \<Rightarrow> nat \<Rightarrow> doc list" where
  "leads_at e n = stamp (n + 3) (fst (leads_loop e (agent1_at n) (agent2_at n) 0 [] 0))"

definition customers_at :: "env \<Rightarrow> nat \<Rightarrow> doc list" where
  "customers_at e n =
     stamp (n + 13) (fst (customers_loop e (agent1_at n) (agent2_at n) 0 []
       (snd (leads_loop e (agent1_at n) (agent2_at n) 0 [] 0))))"

text \<open>The database when the task loop starts.\<close>

definition before_tasks :: "env \<Rightarrow> db \<Rightarrow> db" where
  "before_tasks e d0 =
     d0\<lparr>coll := (coll d0)(User := users_at (next_id d0), Lead := leads_at e (next_id d0),
                           Customer := customers_at e (next_id d0), Task := []),
         next_id := next_id d0 + 18\<rparr>"

text \<open>
  The number of \<open>Math.random\<close> calls before the task loop, and the tasks the script
  stores.
\<close>

definition draws_at :: "env \<Rightarrow> nat \<Rightarrow> nat" where
  "draws_at e n =
     snd (customers_loop e (agent1_at n) (agent2_at n) 0 []
       (snd (leads_loop e (agent1_at n) (agent2_at n) 0 [] 0)))"

definition tasks_at :: "env \<Rightarrow> db \<Rightarrow> doc list" where
  "tasks_at e d0 =
     (case tasks_loop e (before_tasks e d0) (agent1_at (next_id d0)) (agent2_at (next_id d0))
             (customers_at e (next_id d0)) 0 [] (draws_at e (next_id d0)) of
        Inl err \<Rightarrow> []
      | Inr (tasks, k) \<Rightarrow> stamp (next_id d0 + 18) tasks)"

text \<open>The ids of the users with a given role.\<close>

definition user_ids :: "string \<Rightarrow> db \<Rightarrow> jsval list" where
  "user_ids r d =
     map (\<lambda>u. prop_of u ''_id'') (filter (\<lambda>u. prop_of u ''role'' = Str r) (coll d User))"

subsection \<open>A run of the script\<close>

text \<open>
  An environment and a database to run the script on, and the database the run leaves:
  the old users, leads, customers and tasks are gone, the activity log is kept.
\<close>

definition env0 :: env where
  "env0 = \<lparr>random = (\<lambda>k. of_nat (k mod 7) / 7), now = (\<lambda>i. 1700000000000 + int i)\<rparr>"

definition db0 :: db where
  "db0 = \<lparr>coll = (\<lambda>m. [[(''_id'', ObjectId 7), (''name'', Str ''old'')]]), next_id = 100\<rparr>"

definition leads0 :: "doc list" where
  "leads0 = [
     [(''_id'', ObjectId 103), (''name'', Str ''Alex Patel''),
      (''email'', Str ''alex.patel@mail.com''), (''phone'', Str ''+917714285713''),
      (''status'', Str ''Closed Won''), (''source'', Str ''LinkedIn''),
      (''assignedAgent'', ObjectId 101),
      (''history'', Arr [Obj [(''action'', Str ''seeded'')]])],
     [(''_id'', ObjectId 104), (''name'', Str ''Neha Sharma''),
      (''email'', Str ''neha.sharma@example.com''), (''phone'', Str ''+917142857142''),
      (''status'', Str ''In Progress''), (''source'', Str ''Cold Call''),
      (''assignedAgent'', ObjectId 102),
      (''history'', Arr [Obj [(''action'', Str ''seeded'')]])],
     [(''_id'', ObjectId 105), (''name'', Str ''Rahul Garcia''),
      (''email'', Str ''rahul.garcia@example.com''), (''phone'', Str ''+916571428571''),
      (''status'', Str ''In Progress''), (''source'', Str ''Cold Call''),
      (''assignedAgent'', ObjectId 101),
      (''history'', Arr [Obj [(''action'', Str ''seeded'')]])],
     [(''_id'', ObjectId 106), (''name'', Str ''Priya Kim''),
      (''email'', Str ''priya.kim@test.org''), (''phone'', Str ''+916000000000''),
      (''status'', Str ''New''), (''source'', Str ''Referral''),
      (''assignedAgent'', ObjectId 102),
      (''history'', Arr [Obj [(''action'', Str ''seeded'')]])],
     [(''_id'', ObjectId 107), (''name'', Str ''Morgan Doe''),
      (''email'', Str ''morgan.doe@corp.co''), (''phone'', Str ''+919428571427''),
      (''status'', Str ''New''), (''source'', Str ''Website''),
      (''assignedAgent'', ObjectId 101),
      (''history'', Arr [Obj [(''action'', Str ''seeded'')]])],
     [(''_id'', ObjectId 108), (''name'', Str ''Sam Verma''),
      (''email'', Str ''sam.verma@corp.co''), (''phone'', Str ''+918857142856''),
      (''status'', Str ''Closed Lost''), (''source'', Str ''Website''),
      (''assignedAgent'', ObjectId 102),
      (''history'', Arr [Obj [(''action'', Str ''seeded'')]])],
     [(''_id'', ObjectId 109), (''name'', Str ''Jordan Khan''),
      (''email'', Str ''jordan.khan@mail.com''), (''phone'', Str ''+918285714285''),
      (''status'', Str ''Closed Won''), (''source'', Str ''Email''),
      (''assignedAgent'', ObjectId 101),
      (''history'', Arr [Obj [(''action'', Str ''seeded'')]])],
     [(''_id'', ObjectId 110), (''name'', Str ''Alex Patel''),
      (''email'', Str ''alex.patel@mail.com''), (''phone'', Str ''+917714285713''),
      (''status'', Str ''Closed Won''), (''source'', Str ''LinkedIn''),
      (''assignedAgent'', ObjectId 102),
      (''history'', Arr [Obj [(''action'', Str ''seeded'')]])],
     [(''_id'', ObjectId 111), (''name'', Str ''Neha Sharma''),
      (''email'', Str ''neha.sharma@example.com''), (''phone'', Str ''+917142857142''),
      (''status'', Str ''In Progress''), (''source'', Str ''Cold Call''),
      (''assignedAgent'', ObjectId 101),
      (''history'', Arr [Obj [(''action'', Str ''seeded'')]])],
     [(''_id'', ObjectId 112), (''name'', Str ''Rahul Garcia''),
      (''email'', Str ''rahul.garcia@example.com''), (''phone'', Str ''+916571428571''),
      (''status'', Str ''In Progress''), (''source'', Str ''Cold Call''),
      (''assignedAgent'', ObjectId 102),
      (''history'', Arr [Obj [(''action'', Str ''seeded'')]])]]"

definition customers0 :: "doc list" where
  "customers0 = [
     [(''_id'', ObjectId 113), (''name'', Str ''Priya Kim''),
      (''company'', Str ''Stark Industries''), (''email'', Str ''priya.kim@example.com''),
      (''phone'', Str ''+916571428571''), (''owner'', ObjectId 101),
      (''tags'', Arr [Str ''vip''])],
     [(''_id'', ObjectId 114), (''name'', Str ''Sam Verma''),
      (''company'', Str ''Initech''), (''email'', Str ''sam.verma@corp.co''),
      (''phone'', Str ''+919428571427''), (''owner'', ObjectId 102),
      (''tags'', Arr [Str ''vip''])],
     [(''_id'', ObjectId 115), (''name'', Str ''Alex Patel''),
      (''company'', Str ''Globex''), (''email'', Str ''alex.patel@mail.com''),
      (''phone'', Str ''+918285714285''), (''owner'', ObjectId 101),
      (''tags'', Arr [Str ''vip''])],
     [(''_id'', ObjectId 116), (''name'', Str ''Rahul Garcia''),
      (''company'', Str ''Acme Inc''), (''email'', Str ''rahul.garcia@example.com''),
      (''phone'', Str ''+917142857142''), (''owner'', ObjectId 102),
      (''tags'', Arr [Str ''vip''])],
     [(''_id'', ObjectId 117), (''name'', Str ''Morgan Doe''),
      (''company'', Str ''Umbrella''), (''email'', Str ''morgan.doe@test.org''),
      (''phone'', Str ''+916000000000''), (''owner'', ObjectId 101),
      (''tags'', Arr [Str ''vip''])]]"

definition tasks0 :: "doc list" where
  "tasks0 = [
     [(''_id'', ObjectId 118), (''title'', Str ''Follow up 1''),
      (''dueDate'', Date 1699740800000), (''status'', Str ''Open''),
      (''priority'', Str ''Low''), (''relatedType'', Str ''Lead''),
      (''relatedId'', ObjectId 103), (''owner'', ObjectId 101)],
     [(''_id'', ObjectId 119), (''title'', Str ''Follow up 2''),
      (''dueDate'', Date 1699827200001), (''status'', Str ''In Progress''),
      (''priority'', Str ''Medium''), (''relatedType'', Str ''Customer''),
      (''relatedId'', ObjectId 114), (''owner'', ObjectId 102)],
     [(''_id'', ObjectId 120), (''title'', Str ''Follow up 3''),
      (''dueDate'', Date 1699913600002), (''status'', Str ''Done''),
      (''priority'', Str ''High''), (''relatedType'', Str ''Lead''),
      (''relatedId'', ObjectId 103), (''owner'', ObjectId 101)],
     [(''_id'', ObjectId 121), (''title'', Str ''Follow up 4''),
      (''dueDate'', Date 1700000000003), (''status'', Str ''Open''),
      (''priority'', Str ''Low''), (''relatedType'', Str ''Customer''),
      (''relatedId'', ObjectId 116), (''owner'', ObjectId 102)],
     [(''_id'', ObjectId 122), (''title'', Str ''Follow up 5''),
      (''dueDate'', Date 1700086400004), (''status'', Str ''Open''),
      (''priority'', Str ''Medium''), (''relatedType'', Str ''Lead''),
      (''relatedId'', ObjectId 103), (''owner'', ObjectId 101)],
     [(''_id'', ObjectId 123), (''title'', Str ''Follow up 6''),
      (''dueDate'', Date 1700172800005), (''status'', Str ''In Progress''),
      (''priority'', Str ''High''), (''relatedType'', Str ''Customer''),
      (''relatedId'', ObjectId 113), (''owner'', ObjectId 102)],
     [(''_id'', ObjectId 124), (''title'', Str ''Follow up 7''),
      (''dueDate'', Date 1700259200006), (''status'', Str ''Done''),
      (''priority'', Str ''Low''), (''relatedType'', Str ''Lead''),
      (''relatedId'', ObjectId 103), (''owner'', ObjectId 101)],
     [(''_id'', ObjectId 125), (''title'', Str ''Follow up 8''),
      (''dueDate'', Date 1700345600007), (''status'', Str ''Open''),
      (''priority'', Str ''Low''), (''relatedType'', Str ''Customer''),
      (''relatedId'', ObjectId 115), (''owner'', ObjectId 102)]]"

definition seeded0 :: db where
  "seeded0 =
     \<lparr>coll = (\<lambda>m. [[(''_id'', ObjectId 7), (''name'', Str ''old'')]])
               (User := users_at 100, Lead := leads0, Customer := customers0, Task := tasks0),
      next_id = 126\<rparr>"

section \<open>The auth router (mini-crm-backend/src/routes/auth.js)\<close>

text \<open>
  A route is a method, a path pattern and the handlers registered for it, in order. The
  path of a request is the list of the segments of its URL path below the mount point of
  the router (the query left out, one trailing slash ignored). The router is created with
  Express's defaults: a literal segment matches without regard to case, and a parameter
  such as \<open>:id\<close> takes any segment that is not empty. A route registered for GET also
  takes HEAD requests. OPTIONS, which the router answers itself when no route does, is not
  among the verbs.
\<close>

datatype verb = GET | HEAD | POST | PUT | PATCH | DELETE

datatype seg = Lit string | Par string

datatype handler = Auth | RequireRole "string list" | Rules string | Ctrl string

record request =
  verb :: verb
  path :: "string list"
  authorization :: "string option"
  user :: "doc option"
  body :: jsval

record response =
  status :: nat
  payload :: jsval

definition router :: "(verb \<times> seg list \<times> handler list) list" where
  "router =
     [(POST, [Lit ''register''], [Auth, RequireRole [''admin''], Rules ''register'', Ctrl ''register'']),
      (POST, [Lit ''login''], [Rules ''login'', Ctrl ''login'']),
      (POST, [Lit ''refresh''], [Rules ''refresh'', Ctrl ''refresh'']),
      (POST, [Lit ''logout''], [Ctrl ''logout'']),
      (GET, [Lit ''users''], [Auth, RequireRole [''admin''], Ctrl ''listUsers'']),
      (PATCH, [Lit ''users'', Par ''id''], [Auth, RequireRole [''admin''], Ctrl ''updateUser'']),
      (DELETE, [Lit ''users'', Par ''id''], [Auth, RequireRole [''admin''], Ctrl ''deleteUser''])]"

text \<open>Whether a segment fits a segment of the pattern (the regular expression of the layer).\<close>

fun seg_match :: "seg \<Rightarrow> string \<Rightarrow> bool" where
  "seg_match (Lit s) x = (toLowerCase x = toLowerCase s)"
| "seg_match (Par p) x = (x \<noteq> [])"

definition handles_method :: "verb \<Rightarrow> verb \<Rightarrow> bool" where
  "handles_method v m = (m = v \<or> (m = HEAD \<and> v = GET))"

text \<open>A request for the route \<open>(v, p)\<close>: the path fits the pattern and the method is taken.\<close>

definition matches :: "verb \<Rightarrow> seg list \<Rightarrow> request \<Rightarrow> bool" where
  "matches v p r = (handles_method v (verb r) \<and> list_all2 seg_match p (path r))"

subsection \<open>Decoding path parameters\<close>

text \<open>
  When the path fits the pattern of a layer, Express decodes each parameter with
  \<open>decodeURIComponent\<close>, which throws a URIError unless every \<open>%\<close> starts an escape
  \<open>%HH\<close> of two hexadecimal digits and the escaped bytes from \<open>80\<close> up form UTF-8
  encodings of code points (no overlong form, no surrogate, nothing beyond \<open>10FFFF\<close>).
  \<open>None\<close> is the URIError. The decoded string is kept in UTF-8, as all strings here
  are byte strings.
\<close>

definition hex_val :: "char \<Rightarrow> int option" where
  "hex_val c =
     (let n = (of_char c :: int)
      in if 48 \<le> n \<and> n \<le> 57 then Some (n - 48)
         else if 65 \<le> n \<and> n \<le> 70 then Some (n - 55)
         else if 97 \<le> n \<and> n \<le> 102 then Some (n - 87)
         else None)"

text \<open>An escape \<open>%HH\<close> at the head of a string: its byte and the rest.\<close>

fun escape :: "string \<Rightarrow> (int \<times> string) option" where
  "escape (p # h # l # rest) =
     (if p = CHR ''%'' then
        (case hex_val h of
           None \<Rightarrow> None
         | Some a \<Rightarrow> (case hex_val l of None \<Rightarrow> None | Some b \<Rightarrow> Some (16 * a + b, rest)))
      else None)"
| "escape s = None"

text \<open>\<open>n\<close> escaped continuation bytes \<open>10xxxxxx\<close>.\<close>

fun continuation :: "nat \<Rightarrow> string \<Rightarrow> (int list \<times> string) option" where
  "continuation 0 s = Some ([], s)"
| "continuation (Suc n) s =
     (case escape s of
        None \<Rightarrow> None
      | Some (b, rest) \<Rightarrow>
          if 128 \<le> b \<and> b < 192 then
            (case continuation n rest of
               None \<Rightarrow> None
             | Some (bs, rest1) \<Rightarrow> Some (b # bs, rest1))
          else None)"

text \<open>The number of leading one bits of a byte from \<open>80\<close> up (5 stands for 5 and more).\<close>

definition leading_ones :: "int \<Rightarrow> nat" where
  "leading_ones b =
     (if b < 192 then 1 else if b < 224 then 2 else if b < 240 then 3 else if b < 248 then 4
      else 5)"

text \<open>The code point a lead byte with \<open>n\<close> leading ones and its continuation bytes encode.\<close>

definition code_point :: "nat \<Rightarrow> int \<Rightarrow> int list \<Rightarrow> int" where
  "code_point n b bs =
     foldl (\<lambda>v c. 64 * v + (c - 128)) (b - (if n = 2 then 192 else if n = 3 then 224 else 240)) bs"

definition valid_code_point :: "nat \<Rightarrow> int \<Rightarrow> bool" where
  "valid_code_point n v =
     ((if n = 2 then 128 else if n = 3 then 2048 else 65536) \<le> v \<and> v \<le> 1114111 \<and>
      \<not> (55296 \<le> v \<and> v \<le> 57343))"

lemma escape_shorter: "escape s = Some (b, rest) \<Longrightarrow> length rest < length s"
  by (induction s rule: escape.induct) (auto split: if_splits option.splits)

lemma continuation_shorter: "continuation n s = Some (bs, rest) \<Longrightarrow> length rest \<le> length s"
proof (induction n arbitrary: s bs rest)
  case 0
  then show ?case by simp
next
  case (Suc n)
  from Suc.prems obtain b r1 bs1 where e: "escape s = Some (b, r1)"
    and c: "continuation n r1 = Some (bs1, rest)"
    by (auto split: option.splits if_splits)
  from escape_shorter[OF e] Suc.IH[OF c] show ?case by simp
qed

function decodeURIComponent :: "string \<Rightarrow> string option" where
  "decodeURIComponent [] = Some []"
| "decodeURIComponent (c # cs) =
     (if c \<noteq> CHR ''%'' then map_option ((#) c) (decodeURIComponent cs)
      else
        (case escape (c # cs) of
           None \<Rightarrow> None
         | Some (b, rest) \<Rightarrow>
             if b < 128 then map_option ((#) (char_of b)) (decodeURIComponent rest)
             else if leading_ones b = 1 \<or> 4 < leading_ones b then None
             else
               (case continuation (leading_ones b - 1) rest of
                  None \<Rightarrow> None
                | Some (bs, rest1) \<Rightarrow>
                    if valid_code_point (leading_ones b) (code_point (leading_ones b) b bs)
                    then map_option ((@) (map char_of (b # bs))) (decodeURIComponent rest1)
                    else None)))"
  by pat_completeness auto
termination
proof (relation "measure length")
  show "wf (measure length)" by simp
next
  fix c :: char and cs :: string
  show "(cs, c # cs) \<in> measure length" by simp
next
  fix c :: char and cs x2 x y
  assume "escape (c # cs) = Some x2" "(x, y) = x2"
  then show "(y, c # cs) \<in> measure length"
    using escape_shorter[of "c # cs" x y] by simp
next
  fix c :: char and cs x2 x y x2a xa ya
  assume "escape (c # cs) = Some x2" "(x, y) = x2"
    "continuation (leading_ones x - 1) y = Some x2a" "(xa, ya) = x2a"
  then show "(ya, c # cs) \<in> measure length"
    using escape_shorter[of "c # cs" x y] continuation_shorter[of "leading_ones x - 1" y xa ya]
    by simp
qed

text \<open>Whether every parameter of a path that fits the pattern decodes.\<close>

fun decodes :: "seg list \<Rightarrow> string list \<Rightarrow> bool" where
  "decodes (Par q # p) (x # xs) = (decodeURIComponent x \<noteq> None \<and> decodes p xs)"
| "decodes (Lit s # p) (x # xs) = decodes p xs"
| "decodes p xs = True"

subsection \<open>The middleware\<close>

text \<open>
  Modelled from the spec: the \<open>auth\<close> and \<open>requireRole\<close> middleware
  (src/middleware/auth.js is not part of the sources). Spec 4.2: it verifies the bearer
  access token's signature and expiry, attaches the decoded identity to the request, and
  fails with Unauthorized (401) if the token is absent or invalid; the role gate fails with
  Forbidden (403) when the caller's role is not in the allowed set. \<open>verify\<close> is the
  check of signature and expiry: the decoded identity \<open>{id, role, name}\<close> of a valid
  token, \<open>None\<close> for any other string.
\<close>

text \<open>
  Modelled from the spec: the token the middleware reads, the one of an
  \<open>Authorization: Bearer <token>\<close> header. The texts of the two error messages are not
  fixed by the spec.
\<close>

definition bearer :: "request \<Rightarrow> string option" where
  "bearer r =
     (case authorization r of
        None \<Rightarrow> None
      | Some h \<Rightarrow> if take 7 h = ''Bearer '' then Some (drop 7 h) else None)"

definition token_identity :: "(string \<Rightarrow> doc option) \<Rightarrow> request \<Rightarrow> doc option" where
  "token_identity verify r = (case bearer r of None \<Rightarrow> None | Some t \<Rightarrow> verify t)"

definition unauthorized :: response where
  "unauthorized = \<lparr>status = 401, payload = Obj [(''message'', Str ''Unauthorized'')]\<rparr>"

definition forbidden :: response where
  "forbidden = \<lparr>status = 403, payload = Obj [(''message'', Str ''Forbidden'')]\<rparr>"

text \<open>
  Modelled from the spec: \<open>auth\<close> of the missing src/middleware/auth.js: 401 without a
  valid token, otherwise the identity is attached and the next handler runs.
\<close>

definition auth :: "(string \<Rightarrow> doc option) \<Rightarrow> request \<Rightarrow> response + request" where
  "auth verify r =
     (case token_identity verify r of
        None \<Rightarrow> Inl unauthorized
      | Some u \<Rightarrow> Inr (r\<lparr>user := Some u\<rparr>))"

text \<open>
  Modelled from the spec: \<open>requireRole\<close> of the missing src/middleware/auth.js: 403
  unless the role of the attached identity is one of the allowed roles.
\<close>

definition requireRole :: "string list \<Rightarrow> request \<Rightarrow> response + request" where
  "requireRole roles r =
     (case user r of
        None \<Rightarrow> Inl forbidden
      | Some u \<Rightarrow> if prop_of u ''role'' \<in> Str ` set roles then Inr r else Inl forbidden)"

subsection \<open>Running a request through the router\<close>

text \<open>
  The validation rules and the controllers are parameters: \<open>validate n r\<close> is the error
  response of the rules \<open>n\<close> on \<open>r\<close>, if any, and \<open>controller n r\<close> the response of
  controller \<open>n\<close>. A run of a chain returns the handlers it called, in order, and either
  the response (\<open>Inl\<close>) or the request handed on by \<open>next()\<close> (\<open>Inr\<close>).
\<close>

record deps =
  verify :: "string \<Rightarrow> doc option"
  validate :: "string \<Rightarrow> request \<Rightarrow> response option"
  controller :: "string \<Rightarrow> request \<Rightarrow> response"

fun step :: "deps \<Rightarrow> handler \<Rightarrow> request \<Rightarrow> response + request" where
  "step a Auth r = auth (verify a) r"
| "step a (RequireRole roles) r = requireRole roles r"
| "step a (Rules n) r = (case validate a n r of Some resp \<Rightarrow> Inl resp | None \<Rightarrow> Inr r)"
| "step a (Ctrl n) r = Inl (controller a n r)"

fun run :: "deps \<Rightarrow> handler list \<Rightarrow> request \<Rightarrow> handler list \<times> (response + request)" where
  "run a [] r = ([], Inr r)"
| "run a (h # hs) r =
     (case step a h r of
        Inl resp \<Rightarrow> ([h], Inl resp)
      | Inr r1 \<Rightarrow> (let (called, out) = run a hs r1 in (h # called, out)))"

text \<open>
  What the router does with a request: a handler sent a response, or no route took the
  request and it is passed on, or the router gave up with an error of the given status for
  the application's error handler (src/middleware/errorHandler.js, not part of the
  sources).

  Express goes through the layers in the order of registration. A layer whose pattern the
  path does not fit is skipped. When the path fits and a parameter does not decode, the
  URIError (status 400) is held as the pending error and the layer is skipped; a route is
  never entered while an error is pending. Only then is the method looked at. When no
  layer is left, the pending error is the result, if there is one. \<open>failed\<close> says that
  an error is pending.
\<close>

datatype outcome = Sent response | Passed request | Failed nat

fun dispatch ::
  "deps \<Rightarrow> (verb \<times> seg list \<times> handler list) list \<Rightarrow> bool \<Rightarrow> request \<Rightarrow>
   handler list \<times> outcome" where
  "dispatch a [] failed r = ([], if failed then Failed 400 else Passed r)"
| "dispatch a ((v, p, hs) # routes) failed r =
     (if \<not> list_all2 seg_match p (path r) then dispatch a routes failed r
      else if \<not> decodes p (path r) then dispatch a routes True r
      else if failed \<or> \<not> handles_method v (verb r) then dispatch a routes failed r
      else
        (case run a hs r of
           (called, Inl resp) \<Rightarrow> (called, Sent resp)
         | (called, Inr r1) \<Rightarrow>
             (let (called1, out) = dispatch a routes False r1 in (called @ called1, out))))"

definition handle :: "deps \<Rightarrow> request \<Rightarrow> handler list \<times> outcome" where
  "handle a r = dispatch a router False r"

text \<open>The four routes whose chain starts with \<open>auth, requireRole('admin')\<close>.\<close>

definition admin_routes :: "(verb \<times> seg list) list" where
  "admin_routes =
     [(POST, [Lit ''register'']), (GET, [Lit ''users'']),
      (PATCH, [Lit ''users'', Par ''id'']), (DELETE, [Lit ''users'', Par ''id''])]"

text \<open>Requests and handlers to run the router on.\<close>

definition ok :: response where
  "ok = \<lparr>status = 200, payload = Null\<rparr>"

definition open_deps :: deps where
  "open_deps = \<lparr>verify = (\<lambda>t. if t = ''agent-token''
                               then Some [(''id'', Str ''u2''), (''role'', Str ''agent''), (''name'', Str ''Agent One'')]
                               else None),
                validate = (\<lambda>n r. None), controller = (\<lambda>n r. ok)\<rparr>"

definition anonymous :: "verb \<Rightarrow> string list \<Rightarrow> request" where
  "anonymous v p = \<lparr>verb = v, path = p, authorization = None, user = None, body = Null\<rparr>"

definition authenticated :: "string \<Rightarrow> verb \<Rightarrow> string list \<Rightarrow> request" where
  "authenticated t v p = (anonymous v p)\<lparr>authorization := Some (''Bearer '' @ t)\<rparr>"

section \<open>The login page (mini-crm-frontend/pages/login.js)\<close>

text \<open>
  What \<open>onSubmit\<close> does to the browser is the list of its calls: \<open>localStorage.setItem\<close>,
  \<open>router.push\<close> and \<open>alert\<close>, each with its arguments. \<open>login\<close> comes from the auth
  context, which is not part of the sources, and is a parameter here: for an email and a
  password it gives the calls it made itself and either the value it threw (\<open>Inl\<close>, an error
  object) or the value it returned (\<open>Inr\<close>).
\<close>

datatype effect = SetItem string jsval | Push string | Alert jsval

text \<open>\<open>v?.k\<close>, and \<open>v.k\<close> where \<open>v\<close> is neither \<open>null\<close> nor \<open>undefined\<close>.\<close>

definition opt_get :: "jsval \<Rightarrow> string \<Rightarrow> jsval" where
  "opt_get v k = (case v of Obj d \<Rightarrow> prop_of d k | _ \<Rightarrow> Undefined)"

definition truthy :: "jsval \<Rightarrow> bool" where
  "truthy v =
     (case v of
        Undefined \<Rightarrow> False
      | Null \<Rightarrow> False
      | Bool b \<Rightarrow> b
      | Num n \<Rightarrow> n \<noteq> 0
      | Str s \<Rightarrow> s \<noteq> []
      | _ \<Rightarrow> True)"

text \<open>\<open>e.response?.data?.message || 'Login failed'\<close>\<close>

definition failure_message :: "doc \<Rightarrow> jsval" where
  "failure_message e =
     (let m = opt_get (opt_get (prop_of e ''response'') ''data'') ''message''
      in if truthy m then m else Str ''Login failed'')"

text \<open>
  Reading \<open>r.refreshToken\<close> of \<open>null\<close> or \<open>undefined\<close> throws a TypeError inside the
  \<open>try\<close> block; the TypeError has no \<open>response\<close>.
\<close>

definition onSubmit ::
  "(jsval \<Rightarrow> jsval \<Rightarrow> effect list \<times> (doc + jsval)) \<Rightarrow> doc \<Rightarrow> effect list" where
  "onSubmit ctx_login d =
     (case ctx_login (prop_of d ''email'') (prop_of d ''password'') of
        (calls, Inr r) \<Rightarrow>
          (if r = Undefined \<or> r = Null then calls @ [Alert (Str ''Login failed'')]
           else calls
                @ (if truthy (opt_get r ''refreshToken'')
                   then [SetItem ''crm_refresh'' (opt_get r ''refreshToken'')] else [])
                @ [Push ''/''])
      | (calls, Inl e) \<Rightarrow> calls @ [Alert (failure_message e)])"

text \<open>A login that is refused by the server, and form data.\<close>

definition refused_login :: "jsval \<Rightarrow> jsval \<Rightarrow> effect list \<times> (doc + jsval)" where
  "refused_login em pw =
     ([], Inl [(''response'', Obj [(''status'', Num 401),
                                   (''data'', Obj [(''message'', Str ''Invalid credentials'')])])])"

definition form0 :: doc where
  "form0 = [(''email'', Str ''admin@crm.com''), (''password'', Str ''nope'')]"

section \<open>Operations of the backend that are not part of the sources\<close>

subsection \<open>Overdue tasks\<close>

text \<open>
  Modelled from the spec: the overdue test of the task listing and the dashboard (the
  controllers are not part of the sources). Spec 3: overdue is a derived property,
  \<open>dueDate < now && status != Done\<close>, not stored. A task without a due date is not
  overdue.
\<close>

definition overdue :: "int \<Rightarrow> doc \<Rightarrow> bool" where
  "overdue t task =
     (case prop_of task ''dueDate'' of
        Date due \<Rightarrow> due < t \<and> prop_of task ''status'' \<noteq> Str ''Done''
      | _ \<Rightarrow> False)"

subsection \<open>Login\<close>

text \<open>
  Modelled from the spec: the login operation of the auth service and its HTTP response
  (src/controllers/authController.js and src/models/User.js are not part of the
  sources). Spec 4.1: \<open>login(email, password) -> {accessToken, refreshToken, user}\<close> fails
  with InvalidCredentials on mismatch or inactive account; access tokens are signed claims
  containing \<open>{id, role, name}\<close>, refresh tokens are validated against a separate secret.
  Spec 7 and 8: the failure is a 401 with a \<open>{message}\<close> body, the success a 200.

  The \<open>password\<close> of a stored user stands for the hash of the password the user was
  created with, and a login password matches it when it is that password (the hash is taken
  to be free of collisions). An account is inactive when its \<open>isActive\<close> is \<open>false\<close>. A
  token is a JWT in compact form, \<open>header.payload.signature\<close>; the encoding of a JSON
  value and the MAC are parameters.
\<close>

datatype auth_error = InvalidCredentials | InvalidToken | DuplicateEmail

record signer =
  encode :: "jsval \<Rightarrow> string"
  mac :: "string \<Rightarrow> string \<Rightarrow> string"
  access_secret :: string
  refresh_secret :: string

text \<open>
  Modelled from the spec: the signed token the missing auth controller issues.
\<close>

definition jwt :: "signer \<Rightarrow> string \<Rightarrow> doc \<Rightarrow> string" where
  "jwt s secret claims =
     (let signed = encode s (Obj [(''alg'', Str ''HS256''), (''typ'', Str ''JWT'')]) @ ''.''
                   @ encode s (Obj claims)
      in signed @ ''.'' @ mac s secret signed)"

definition claims_of :: "doc \<Rightarrow> doc" where
  "claims_of u = [(''id'', prop_of u ''_id''), (''role'', prop_of u ''role''),
                  (''name'', prop_of u ''name'')]"

text \<open>
  Modelled from the spec: \<open>login\<close> of the missing src/controllers/authController.js.
\<close>

definition login :: "signer \<Rightarrow> doc list \<Rightarrow> string \<Rightarrow> string \<Rightarrow> auth_error + doc" where
  "login s users em pw =
     (case find (\<lambda>u. prop_of u ''email'' = Str em) users of
        None \<Rightarrow> Inl InvalidCredentials
      | Some u \<Rightarrow>
          if prop_of u ''password'' \<noteq> Str pw \<or> prop_of u ''isActive'' = Bool False
          then Inl InvalidCredentials
          else Inr [(''accessToken'', Str (jwt s (access_secret s) (claims_of u))),
                    (''refreshToken'', Str (jwt s (refresh_secret s) (claims_of u))),
                    (''user'', Obj (claims_of u))])"

text \<open>
  Modelled from the spec: the HTTP response of the missing login controller. The text of
  the message is not fixed by the spec.
\<close>

definition login_response :: "auth_error + doc \<Rightarrow> response" where
  "login_response res =
     (case res of
        Inl err \<Rightarrow> \<lparr>status = 401, payload = Obj [(''message'', Str ''Invalid credentials'')]\<rparr>
      | Inr b \<Rightarrow> \<lparr>status = 200, payload = Obj b\<rparr>)"

definition signer0 :: signer where
  "signer0 = \<lparr>encode = (\<lambda>v. []), mac = (\<lambda>k m. []), access_secret = ''a'',
              refresh_secret = ''r''\<rparr>"

subsection \<open>Converting a lead\<close>

text \<open>
  Modelled from the spec: the convert action of the lead controller
  (src/controllers/leadController.js is not part of the sources). Spec 4.3: it creates a
  Customer from the Lead's fields, sets the Lead's status to Closed Won, and appends a
  history entry and an Activity entry; a lead that is already Closed Won is not refused
  (spec 9). The customer takes the lead's name, email and phone, and the lead's assigned
  agent as its owner. A lead that does not exist is NotFound (spec 7).
\<close>

datatype api_error = NotFound

definition set_prop :: "doc \<Rightarrow> string \<Rightarrow> jsval \<Rightarrow> doc" where
  "set_prop d k v =
     (if k \<in> fst ` set d then map (\<lambda>p. if fst p = k then (k, v) else p) d else d @ [(k, v)])"

definition history_of :: "doc \<Rightarrow> jsval list" where
  "history_of l = (case prop_of l ''history'' of Arr h \<Rightarrow> h | _ \<Rightarrow> [])"

text \<open>
  Modelled from the spec: the lead after the missing convert action. The content of the
  history entry is not fixed by the spec; this one names the action and the actor.
\<close>

definition converted :: "jsval \<Rightarrow> doc \<Rightarrow> doc" where
  "converted actor l =
     set_prop (set_prop l ''status'' (Str ''Closed Won'')) ''history''
       (Arr (history_of l @ [Obj [(''action'', Str ''converted''), (''by'', actor)]]))"

text \<open>
  Modelled from the spec: \<open>convert\<close> of the missing src/controllers/leadController.js,
  in a run where every database call succeeds. The content of the activity record is not
  fixed by the spec.
\<close>

definition convert :: "jsval \<Rightarrow> jsval \<Rightarrow> db \<Rightarrow> api_error + db" where
  "convert actor lid d =
     (case find (\<lambda>l. prop_of l ''_id'' = lid) (coll d Lead) of
        None \<Rightarrow> Inl NotFound
      | Some l \<Rightarrow>
          (let (customer, d1) =
                 create Customer [(''name'', prop_of l ''name''), (''email'', prop_of l ''email''),
                                  (''phone'', prop_of l ''phone''),
                                  (''owner'', prop_of l ''assignedAgent'')] d;
               d2 = d1\<lparr>coll := (coll d1)(Lead :=
                         map (\<lambda>x. if prop_of x ''_id'' = lid then converted actor x else x)
                           (coll d1 Lead))\<rparr>;
               (activity, d3) =
                 create Activity [(''type'', Str ''lead_converted''), (''actor'', actor),
                                  (''entityType'', Str ''Lead''), (''entityId'', lid),
                                  (''message'', Str ''Lead converted to customer''),
                                  (''meta'', Obj [(''customerId'', prop_of customer ''_id'')])] d2
           in Inr d3))"

text \<open>\<open>n\<close> conversions of the same lead, one after the other.\<close>

fun convert_times :: "nat \<Rightarrow> jsval \<Rightarrow> jsval \<Rightarrow> db \<Rightarrow> api_error + db" where
  "convert_times 0 actor lid d = Inr d"
| "convert_times (Suc n) actor lid d =
     (case convert actor lid d of
        Inl err \<Rightarrow> Inl err
      | Inr d1 \<Rightarrow> convert_times n actor lid d1)"

definition lead0 :: doc where
  "lead0 = [(''_id'', ObjectId 1), (''name'', Str ''Sam Lee''), (''email'', Str ''sam.lee@mail.com''),
            (''phone'', Str ''+916000000000''), (''status'', Str ''New''),
            (''source'', Str ''Website''), (''assignedAgent'', ObjectId 0),
            (''history'', Arr [Obj [(''action'', Str ''seeded'')]])]"

definition crm0 :: db where
  "crm0 = \<lparr>coll = (\<lambda>m. [])(Lead := [lead0]), next_id = 2\<rparr>"


section \<open>Properties of the seed script\<close>

lemma prop_of_simps:
  "prop_of [] k = Undefined" "prop_of ((k1, v) # d) k = (if k = k1 then v else prop_of d k)"
  by (simp_all add: prop_of_def)

lemma js_index_unit:
  assumes "0 \<le> r" "r < 1" "arr \<noteq> []"
  shows "\<exists>x\<in>set arr. js_index arr \<lfloor>r * of_nat (length arr)\<rfloor> = Some x"
proof -
  let ?n = "length arr"
  have pos: "0 < (of_nat ?n :: rat)" using assms(3) by simp
  have "0 \<le> r * of_nat ?n" using assms(1) by simp
  then have lo: "0 \<le> \<lfloor>r * of_nat ?n\<rfloor>" by simp
  have "r * of_nat ?n < of_nat ?n" using assms(2) pos by simp
  then have "r * of_nat ?n < of_int (int ?n)" by simp
  then have hi: "\<lfloor>r * of_nat ?n\<rfloor> < int ?n" by (simp only: floor_less_iff)
  from lo hi have "nat \<lfloor>r * of_nat ?n\<rfloor> < ?n" by linarith
  then have "arr ! nat \<lfloor>r * of_nat ?n\<rfloor> \<in> set arr" by simp
  with lo hi show ?thesis by (auto simp: js_index_def)
qed

lemma rand_unit:
  "unit_random e \<Longrightarrow> arr \<noteq> [] \<Longrightarrow> \<exists>x\<in>set arr. fst (rand e arr k) = Some x"
  by (simp add: rand_def unit_random_def js_index_unit)

lemma lead_obj_status:
  "\<exists>k'. prop_of (fst (lead_obj e a1 a2 i k)) ''status'' = str_val (fst (rand e statuses k'))"
  by (simp add: lead_obj_def name_def email_def phone_def rand_def split_def Let_def prop_of_def) blast

lemma lead_obj_agent:
  "prop_of (fst (lead_obj e a1 a2 i k)) ''assignedAgent'' = (if i mod 2 = 0 then prop_of a1 ''_id'' else prop_of a2 ''_id'')"
  by (simp add: lead_obj_def name_def email_def phone_def rand_def split_def Let_def prop_of_def)

lemma leads_loop_length: "length (fst (leads_loop e a1 a2 i acc k)) = length acc + (10 - i)"
proof (induction e a1 a2 i acc k rule: leads_loop.induct)
  case (1 e a1 a2 i leads k)
  show ?case
  proof (cases "i < 10")
    case True
    obtain obj k1 where eq: "lead_obj e a1 a2 i k = (obj, k1)" by (cases "lead_obj e a1 a2 i k")
    from True 1[OF True eq[symmetric] refl] show ?thesis
      by (subst leads_loop.simps) (simp add: eq)
  next
    case False
    then show ?thesis by (subst leads_loop.simps) simp
  qed
qed

lemma leads_loop_all:
  "(\<And>i k. P (fst (lead_obj e a1 a2 i k))) \<Longrightarrow> list_all P acc \<Longrightarrow>
   list_all P (fst (leads_loop e a1 a2 i acc k))"
proof (induction e a1 a2 i acc k rule: leads_loop.induct)
  case (1 e a1 a2 i leads k)
  show ?case
  proof (cases "i < 10")
    case True
    obtain obj k1 where eq: "lead_obj e a1 a2 i k = (obj, k1)" by (cases "lead_obj e a1 a2 i k")
    have "P obj" using "1.prems"(1)[of i k] by (simp add: eq)
    with True "1.IH"[OF True eq[symmetric] refl] "1.prems" show ?thesis
      by (subst leads_loop.simps) (simp add: eq)
  next
    case False
    then show ?thesis using "1.prems" by (subst leads_loop.simps) simp
  qed
qed

declare leads_loop.simps [simp del] customers_loop.simps [simp del] tasks_loop.simps [simp del]

lemma customers_loop_length:
  "length (fst (customers_loop e a1 a2 i acc k)) = length acc + (5 - i)"
proof (induction e a1 a2 i acc k rule: customers_loop.induct)
  case (1 e a1 a2 i customers k)
  show ?case
  proof (cases "i < 5")
    case True
    obtain obj k1 where eq: "customer_obj e a1 a2 i k = (obj, k1)"
      by (cases "customer_obj e a1 a2 i k")
    from True 1[OF True eq[symmetric] refl] show ?thesis
      by (subst customers_loop.simps) (simp add: eq)
  next
    case False
    then show ?thesis by (subst customers_loop.simps) simp
  qed
qed

lemma customers_loop_all:
  "(\<And>i k. P (fst (customer_obj e a1 a2 i k))) \<Longrightarrow> list_all P acc \<Longrightarrow>
   list_all P (fst (customers_loop e a1 a2 i acc k))"
proof (induction e a1 a2 i acc k rule: customers_loop.induct)
  case (1 e a1 a2 i customers k)
  show ?case
  proof (cases "i < 5")
    case True
    obtain obj k1 where eq: "customer_obj e a1 a2 i k = (obj, k1)"
      by (cases "customer_obj e a1 a2 i k")
    have "P obj" using "1.prems"(1)[of i k] by (simp add: eq)
    with True "1.IH"[OF True eq[symmetric] refl] "1.prems" show ?thesis
      by (subst customers_loop.simps) (simp add: eq)
  next
    case False
    then show ?thesis using "1.prems" by (subst customers_loop.simps) simp
  qed
qed

lemma task_obj_Inr:
  "findOne Lead d \<noteq> None \<Longrightarrow> cs \<noteq> [] \<Longrightarrow> \<exists>t k'. task_obj e d a1 a2 cs i k = Inr (t, k')"
  by (auto simp: task_obj_def related_def js_index_def split_def Let_def split: option.splits)

lemma tasks_loop_Inr:
  "findOne Lead d \<noteq> None \<Longrightarrow> cs \<noteq> [] \<Longrightarrow>
   \<exists>ts k'. tasks_loop e d a1 a2 cs i acc k = Inr (ts, k') \<and> length ts = length acc + (8 - i)"
proof (induction e d a1 a2 cs i acc k rule: tasks_loop.induct)
  case (1 e d a1 a2 cs i tasks k)
  show ?case
  proof (cases "i < 8")
    case True
    obtain obj k1 where eq: "task_obj e d a1 a2 cs i k = Inr (obj, k1)"
      using task_obj_Inr[OF "1.prems"] by blast
    from "1.IH"[OF True eq refl "1.prems"] obtain ts k' where
      r: "tasks_loop e d a1 a2 cs (Suc i) (tasks @ [obj]) k1 = Inr (ts, k')"
      and l: "length ts = length (tasks @ [obj]) + (8 - Suc i)" by blast
    have "tasks_loop e d a1 a2 cs i tasks k = Inr (ts, k')"
      using True r by (subst tasks_loop.simps) (simp add: eq)
    moreover have "length ts = length tasks + (8 - i)" using True l by simp
    ultimately show ?thesis by blast
  next
    case False
    then show ?thesis by (subst tasks_loop.simps) simp
  qed
qed

lemma tasks_loop_all:
  "(\<And>i k t k'. task_obj e d a1 a2 cs i k = Inr (t, k') \<Longrightarrow> P t) \<Longrightarrow> list_all P acc \<Longrightarrow>
   tasks_loop e d a1 a2 cs i acc k = Inr (ts, kn) \<Longrightarrow> list_all P ts"
proof (induction e d a1 a2 cs i acc k rule: tasks_loop.induct)
  case (1 e d a1 a2 cs i tasks k)
  show ?case
  proof (cases "i < 8")
    case True
    from True "1.prems"(3) obtain obj k1 where eq: "task_obj e d a1 a2 cs i k = Inr (obj, k1)"
      by (subst (asm) tasks_loop.simps) (auto split: sum.splits)
    have "P obj" using "1.prems"(1)[OF eq] .
    moreover from True "1.prems"(3) eq
    have "tasks_loop e d a1 a2 cs (Suc i) (tasks @ [obj]) k1 = Inr (ts, kn)"
      by (subst (asm) tasks_loop.simps) simp
    ultimately show ?thesis
      using "1.IH"[OF True eq refl "1.prems"(1)] "1.prems"(2) by simp
  next
    case False
    then show ?thesis using "1.prems" by (subst (asm) tasks_loop.simps) simp
  qed
qed

lemma insertMany_fst: "fst (insertMany m objs d) = stamp (next_id d) objs"
  by (induction objs arbitrary: d) (simp_all add: split_def create_def Let_def)

lemma insertMany_next: "next_id (snd (insertMany m objs d)) = next_id d + length objs"
  by (induction objs arbitrary: d) (simp_all add: split_def create_def Let_def)

lemma insertMany_coll:
  "coll (snd (insertMany m objs d)) = (coll d)(m := coll d m @ stamp (next_id d) objs)"
  by (induction objs arbitrary: d) (simp_all add: split_def create_def Let_def)

lemma length_stamp: "length (stamp n objs) = length objs"
  by (induction objs arbitrary: n) simp_all

lemma stamp_all:
  "list_all P objs \<Longrightarrow> (\<And>j obj. P obj \<Longrightarrow> Q ((''_id'', ObjectId j) # obj)) \<Longrightarrow>
   list_all Q (stamp n objs)"
  by (induction objs arbitrary: n) simp_all

lemma insertMany_snd:
  "snd (insertMany m objs d) =
   d\<lparr>coll := (coll d)(m := coll d m @ stamp (next_id d) objs), next_id := next_id d + length objs\<rparr>"
  by (induction objs arbitrary: d) (simp_all add: split_def create_def Let_def)

lemma deleteMany_all:
  "deleteMany Task (deleteMany Customer (deleteMany Lead (deleteMany User d0))) =
   d0\<lparr>coll := (coll d0)(User := [], Lead := [], Customer := [], Task := [])\<rparr>"
  by (simp add: deleteMany_def)

lemma seed_char:
  "\<exists>tasks k.
     tasks_loop e (before_tasks e d0) (agent1_at (next_id d0)) (agent2_at (next_id d0))
       (customers_at e (next_id d0)) 0 [] (draws_at e (next_id d0)) = Inr (tasks, k) \<and>
     length tasks = 8 \<and>
     seed e d0 = Inr ((before_tasks e d0)
       \<lparr>coll := (coll (before_tasks e d0))(Task := stamp (next_id d0 + 18) tasks),
        next_id := next_id d0 + 26\<rparr>)"
proof -
  define n where "n = next_id d0"
  define agent1 where "agent1 = agent1_at n"
  define agent2 where "agent2 = agent2_at n"
  define ll where "ll = leads_loop e agent1 agent2 0 [] 0"
  define cl where "cl = customers_loop e agent1 agent2 0 [] (snd ll)"
  define d6 where "d6 = before_tasks e d0"
  define cleared where
    "cleared = d0\<lparr>coll := (coll d0)(User := [], Lead := [], Customer := [], Task := [])\<rparr>"
  have leads: "leads_at e n = stamp (n + 3) (fst ll)"
    by (simp add: leads_at_def ll_def agent1_def agent2_def)
  have customers: "customers_at e n = stamp (n + 13) (fst cl)"
    by (simp add: customers_at_def cl_def ll_def agent1_def agent2_def)
  have draws: "draws_at e n = snd cl"
    by (simp add: draws_at_def cl_def ll_def agent1_def agent2_def)
  have l10: "length (fst ll) = 10" by (simp add: ll_def leads_loop_length)
  have l5: "length (fst cl) = 5" by (simp add: cl_def customers_loop_length)
  have lead1: "findOne Lead d6 \<noteq> None"
    using l10
    by (cases "fst ll") (simp_all add: findOne_def d6_def before_tasks_def leads[unfolded n_def])
  have cust1: "customers_at e n \<noteq> []"
    using l5 by (cases "fst cl") (simp_all add: customers)
  from tasks_loop_Inr[OF lead1 cust1, of e agent1 agent2 0 "[]" "snd cl"]
  obtain tasks k where
    t: "tasks_loop e d6 agent1 agent2 (customers_at e n) 0 [] (snd cl) = Inr (tasks, k)"
    and l8: "length tasks = 8" by auto
  have a1: "fst (create User agent1_obj (snd (create User admin_obj cleared))) = agent1"
    by (simp add: create_def Let_def agent1_def agent1_at_def n_def cleared_def)
  have a2: "fst (create User agent2_obj (snd (create User agent1_obj
              (snd (create User admin_obj cleared))))) = agent2"
    by (simp add: create_def Let_def agent2_def agent2_at_def n_def cleared_def)
  have d6: "snd (insertMany Customer (fst cl) (snd (insertMany Lead (fst ll)
              (snd (create User agent2_obj (snd (create User agent1_obj
                (snd (create User admin_obj cleared)))))))))  = d6"
    by (simp add: insertMany_snd create_def Let_def d6_def before_tasks_def n_def users_at_def
        leads[unfolded n_def] customers[unfolded n_def] l10 l5 cleared_def fun_upd_twist
        eval_nat_numeral)
  have ic: "fst (insertMany Customer (fst cl) (snd (insertMany Lead (fst ll)
              (snd (create User agent2_obj (snd (create User agent1_obj
                (snd (create User admin_obj cleared))))))))) = customers_at e n"
    by (simp add: insertMany_fst insertMany_snd create_def Let_def customers[unfolded n_def]
        n_def l10 cleared_def ac_simps)
  have s1: "seed e d0 = Inr (snd (insertMany Task tasks d6))"
    unfolding seed_def deleteMany_all cleared_def[symmetric]
    by (simp only: Let_def split_def a1 a2 d6 ic ll_def[symmetric] cl_def[symmetric] t
        sum.case prod.case fst_conv snd_conv)
  have s2: "snd (insertMany Task tasks d6) =
      d6\<lparr>coll := (coll d6)(Task := stamp (n + 18) tasks), next_id := n + 26\<rparr>"
    by (simp add: insertMany_snd d6_def before_tasks_def n_def l8)
  have "seed e d0 =
      Inr (d6\<lparr>coll := (coll d6)(Task := stamp (n + 18) tasks), next_id := n + 26\<rparr>)"
    using s1 s2 by simp
  with t l8 show ?thesis
    unfolding d6_def agent1_def agent2_def n_def draws[unfolded n_def, symmetric]
    by (intro exI[of _ tasks] exI[of _ k] conjI)
qed

lemma seed_colls:
  assumes "seed e d0 = Inr d"
  shows "coll d User = users_at (next_id d0)"
    and "coll d Lead = leads_at e (next_id d0)"
    and "coll d Customer = customers_at e (next_id d0)"
    and "\<exists>tasks k0 k.
           tasks_loop e (before_tasks e d0) (agent1_at (next_id d0)) (agent2_at (next_id d0))
             (customers_at e (next_id d0)) 0 [] k0 = Inr (tasks, k) \<and>
           length tasks = 8 \<and> coll d Task = stamp (next_id d0 + 18) tasks"
    and "coll d Activity = coll d0 Activity"
    and "coll d Task = tasks_at e d0"
    and "next_id d = next_id d0 + 26"
proof -
  from seed_char[of e d0] obtain tasks k where
    t: "tasks_loop e (before_tasks e d0) (agent1_at (next_id d0)) (agent2_at (next_id d0))
          (customers_at e (next_id d0)) 0 [] (draws_at e (next_id d0)) = Inr (tasks, k)"
    and l8: "length tasks = 8"
    and s: "seed e d0 = Inr ((before_tasks e d0)
       \<lparr>coll := (coll (before_tasks e d0))(Task := stamp (next_id d0 + 18) tasks),
        next_id := next_id d0 + 26\<rparr>)"
    by blast
  from s assms have d: "d = (before_tasks e d0)
       \<lparr>coll := (coll (before_tasks e d0))(Task := stamp (next_id d0 + 18) tasks),
        next_id := next_id d0 + 26\<rparr>" by simp
  show "coll d User = users_at (next_id d0)" by (simp add: d before_tasks_def)
  show "coll d Lead = leads_at e (next_id d0)" by (simp add: d before_tasks_def)
  show "coll d Customer = customers_at e (next_id d0)" by (simp add: d before_tasks_def)
  show "coll d Activity = coll d0 Activity" by (simp add: d before_tasks_def)
  show "next_id d = next_id d0 + 26" by (simp add: d)
  have ct: "coll d Task = stamp (next_id d0 + 18) tasks" by (simp add: d)
  then show "coll d Task = tasks_at e d0" by (simp add: tasks_at_def t)
  from ct t l8 show "\<exists>tasks k0 k.
           tasks_loop e (before_tasks e d0) (agent1_at (next_id d0)) (agent2_at (next_id d0))
             (customers_at e (next_id d0)) 0 [] k0 = Inr (tasks, k) \<and>
           length tasks = 8 \<and> coll d Task = stamp (next_id d0 + 18) tasks" by blast
qed

lemma length_leads_at: "length (leads_at e n) = 10"
  by (simp add: leads_at_def length_stamp leads_loop_length)

lemma length_customers_at: "length (customers_at e n) = 5"
  by (simp add: customers_at_def length_stamp customers_loop_length)

lemma seed_total: "\<exists>d. seed e d0 = Inr d"
  using seed_char[of e d0] by blast

subsection \<open>The run on \<open>env0\<close> and \<open>db0\<close>\<close>

lemma env0_unit: "unit_random env0"
proof -
  have "0 \<le> (of_nat (k mod 7) / 7 :: rat) \<and> (of_nat (k mod 7) / 7 :: rat) < 1" for k :: nat
  proof -
    have "k mod 7 < 7" by simp
    then have "(of_nat (k mod 7) :: rat) < 7" by (metis of_nat_less_iff of_nat_numeral)
    then show ?thesis by simp
  qed
  then show ?thesis by (simp add: unit_random_def env0_def)
qed

lemma lead_obj_draws: "snd (lead_obj e a1 a2 i k) = k + 6"
  by (simp add: lead_obj_def name_def email_def phone_def rand_def split_def Let_def)

lemma customer_obj_draws: "snd (customer_obj e a1 a2 i k) = k + 5"
  by (simp add: customer_obj_def name_def email_def phone_def rand_def split_def Let_def)

lemma leads_loop_draws: "snd (leads_loop e a1 a2 i acc k) = k + 6 * (10 - i)"
proof (induction e a1 a2 i acc k rule: leads_loop.induct)
  case (1 e a1 a2 i leads k)
  show ?case
  proof (cases "i < 10")
    case True
    obtain obj k1 where eq: "lead_obj e a1 a2 i k = (obj, k1)" by (cases "lead_obj e a1 a2 i k")
    then have k1: "k1 = k + 6" using lead_obj_draws[of e a1 a2 i k] by simp
    from True 1[OF True eq[symmetric] refl] show ?thesis
      by (subst leads_loop.simps) (simp add: eq k1)
  next
    case False
    then show ?thesis by (subst leads_loop.simps) simp
  qed
qed

lemma customers_loop_draws: "snd (customers_loop e a1 a2 i acc k) = k + 5 * (5 - i)"
proof (induction e a1 a2 i acc k rule: customers_loop.induct)
  case (1 e a1 a2 i customers k)
  show ?case
  proof (cases "i < 5")
    case True
    obtain obj k1 where eq: "customer_obj e a1 a2 i k = (obj, k1)"
      by (cases "customer_obj e a1 a2 i k")
    then have k1: "k1 = k + 5" using customer_obj_draws[of e a1 a2 i k] by simp
    from True 1[OF True eq[symmetric] refl] show ?thesis
      by (subst customers_loop.simps) (simp add: eq k1)
  next
    case False
    then show ?thesis by (subst customers_loop.simps) simp
  qed
qed

lemma draws_at_85: "draws_at e n = 85"
  by (simp add: draws_at_def leads_loop_draws customers_loop_draws)

lemma leads_env0: "leads_at env0 100 = leads0"
  by code_simp

lemma customers_env0: "customers_at env0 100 = customers0"
proof -
  have "customers_at env0 100 =
      stamp 113 (fst (customers_loop env0 (agent1_at 100) (agent2_at 100) 0 [] 60))"
    by (simp add: customers_at_def leads_loop_draws)
  also have "\<dots> = customers0" by code_simp
  finally show ?thesis .
qed

lemma tasks_env0: "tasks_at env0 db0 = tasks0"
proof -
  have n: "next_id db0 = 100" by (simp add: db0_def)
  have "tasks_at env0 db0 =
      (case tasks_loop env0
              (db0\<lparr>coll := (coll db0)(User := users_at 100, Lead := leads0,
                                        Customer := customers0, Task := []),
                   next_id := 118\<rparr>)
              (agent1_at 100) (agent2_at 100) customers0 0 [] 85 of
         Inl err \<Rightarrow> []
       | Inr (tasks, k) \<Rightarrow> stamp (next_id db0 + 18) tasks)"
    by (simp add: tasks_at_def before_tasks_def n leads_env0 customers_env0 draws_at_85)
  also have "\<dots> = tasks0" by code_simp
  finally show ?thesis .
qed

lemma seed_env0: "seed env0 db0 = Inr seeded0"
proof -
  obtain d where d: "seed env0 db0 = Inr d" using seed_total by blast
  have n: "next_id db0 = 100" by (simp add: db0_def)
  have c: "coll db0 Activity = [[(''_id'', ObjectId 7), (''name'', Str ''old'')]]"
    by (simp add: db0_def)
  have "coll d m = coll seeded0 m" for m
  proof (cases m)
    case User
    then show ?thesis by (simp add: seed_colls(1)[OF d] n seeded0_def)
  next
    case Lead
    then show ?thesis by (simp add: seed_colls(2)[OF d] n leads_env0 seeded0_def)
  next
    case Customer
    then show ?thesis by (simp add: seed_colls(3)[OF d] n customers_env0 seeded0_def)
  next
    case Task
    then show ?thesis by (simp add: seed_colls(6)[OF d] tasks_env0 seeded0_def)
  next
    case Activity
    then show ?thesis by (simp add: seed_colls(5)[OF d] c seeded0_def)
  qed
  then have "coll d = coll seeded0" by (rule ext)
  moreover have "next_id d = next_id seeded0"
    using seed_colls(7)[OF d] by (simp add: n seeded0_def)
  ultimately have "d = seeded0" by simp
  with d show ?thesis by simp
qed

subsection \<open>What the script guarantees\<close>

lemma prop_of_stamped:
  "k \<noteq> ''_id'' \<Longrightarrow> prop_of ((''_id'', v) # obj) k = prop_of obj k"
  by (auto simp: prop_of_def)

lemma prop_of_id: "prop_of ((''_id'', v) # obj) ''_id'' = v"
  by (simp add: prop_of_def)

lemma stamp_set:
  "x \<in> set (stamp n objs) \<Longrightarrow> \<exists>j obj. obj \<in> set objs \<and> n \<le> j \<and> j < n + length objs \<and> x = (''_id'', ObjectId j) # obj"
proof (induction objs arbitrary: n)
  case Nil
  then show ?case by simp
next
  case (Cons a objs)
  from Cons.prems have "x = (''_id'', ObjectId n) # a \<or> x \<in> set (stamp (Suc n) objs)" by simp
  then show ?case
  proof
    assume "x = (''_id'', ObjectId n) # a"
    then show ?thesis by (intro exI[of _ n] exI[of _ a]) simp
  next
    assume "x \<in> set (stamp (Suc n) objs)"
    from Cons.IH[OF this] obtain j obj where "obj \<in> set objs" "Suc n \<le> j" "j < Suc n + length objs"
      "x = (''_id'', ObjectId j) # obj" by blast
    then show ?thesis by (intro exI[of _ j] exI[of _ obj]) simp
  qed
qed

lemma leads_loop_set:
  assumes "\<And>i k. P (fst (lead_obj e a1 a2 i k))" "obj \<in> set (fst (leads_loop e a1 a2 0 [] k))"
  shows "P obj"
  using leads_loop_all[of P e a1 a2 "[]" 0 k] assms by (simp add: list_all_iff)

lemma customers_loop_set:
  assumes "\<And>i k. P (fst (customer_obj e a1 a2 i k))" "obj \<in> set (fst (customers_loop e a1 a2 0 [] k))"
  shows "P obj"
  using customers_loop_all[of P e a1 a2 "[]" 0 k] assms by (simp add: list_all_iff)

lemma tasks_loop_set:
  assumes "\<And>i k t k'. task_obj e d a1 a2 cs i k = Inr (t, k') \<Longrightarrow> P t"
    "tasks_loop e d a1 a2 cs 0 [] k = Inr (ts, kn)" "t \<in> set ts"
  shows "P t"
  using tasks_loop_all[of e d a1 a2 cs P "[]" 0 k ts kn] assms by (simp add: list_all_iff)

lemma str_val_rand:
  "unit_random e \<Longrightarrow> arr \<noteq> [] \<Longrightarrow> str_val (fst (rand e arr k)) \<in> Str ` set arr"
  using rand_unit[of e arr k] by (auto simp: str_val_def)

text \<open>
  C7: the script inserts ten leads, and the status of each is one of New, In Progress,
  Closed Won and Closed Lost, whatever \<open>Math.random\<close> returns within its range.
\<close>

theorem seed_lead_status:
  assumes "unit_random e" and "seed e d0 = Inr d"
  shows "length (coll d Lead) = 10 \<and>
         (\<forall>l \<in> set (coll d Lead).
            prop_of l ''status'' \<in>
              {Str ''New'', Str ''In Progress'', Str ''Closed Won'', Str ''Closed Lost''})"
proof -
  let ?S = "{Str ''New'', Str ''In Progress'', Str ''Closed Won'', Str ''Closed Lost''}"
  have S: "Str ` set statuses = ?S" by (auto simp: statuses_def)
  have obj: "prop_of (fst (lead_obj e a1 a2 i k)) ''status'' \<in> ?S" for a1 a2 i k
  proof -
    from lead_obj_status[of e a1 a2 i k] obtain k' where
      "prop_of (fst (lead_obj e a1 a2 i k)) ''status'' = str_val (fst (rand e statuses k'))" ..
    moreover have "str_val (fst (rand e statuses k')) \<in> Str ` set statuses"
      using assms(1) by (intro str_val_rand) (simp_all add: statuses_def)
    ultimately show ?thesis using S by simp
  qed
  have "prop_of l ''status'' \<in> ?S" if "l \<in> set (coll d Lead)" for l
  proof -
    from that have "l \<in> set (leads_at e (next_id d0))" by (simp add: seed_colls(2)[OF assms(2)])
    then obtain j o1 where o1: "o1 \<in> set (fst (leads_loop e (agent1_at (next_id d0)) (agent2_at (next_id d0)) 0 [] 0))"
      and l: "l = (''_id'', ObjectId j) # o1"
      unfolding leads_at_def by (blast dest: stamp_set)
    have "prop_of o1 ''status'' \<in> ?S"
      by (rule leads_loop_set[where P = "\<lambda>x. prop_of x ''status'' \<in> ?S", OF obj o1])
    then show ?thesis by (simp add: l prop_of_stamped)
  qed
  then show ?thesis by (simp add: seed_colls(2)[OF assms(2)] length_leads_at)
qed

theorem seed_lead_status_witness:
  "unit_random env0 \<and> seed env0 db0 = Inr seeded0 \<and> length (coll seeded0 Lead) = 10 \<and>
   map (\<lambda>l. prop_of l ''status'') (coll seeded0 Lead) =
     [Str ''Closed Won'', Str ''In Progress'', Str ''In Progress'', Str ''New'', Str ''New'',
      Str ''Closed Lost'', Str ''Closed Won'', Str ''Closed Won'', Str ''In Progress'',
      Str ''In Progress'']"
  using seed_lead_status[OF env0_unit seed_env0] env0_unit seed_env0
  by (simp add: seeded0_def leads0_def prop_of_simps)

lemma customer_obj_owner:
  "prop_of (fst (customer_obj e a1 a2 i k)) ''owner'' =
     (if i mod 2 = 0 then prop_of a1 ''_id'' else prop_of a2 ''_id'')"
  by (simp add: customer_obj_def name_def email_def phone_def rand_def split_def Let_def
      prop_of_def)

lemma related_cases:
  assumes "related d cs i = Inr (rtype, rid)"
  shows "(rtype = ''Lead'' \<and> (\<exists>l. findOne Lead d = Some l \<and> rid = prop_of l ''_id'')) \<or>
         (rtype = ''Customer'' \<and> (\<exists>c \<in> set cs. rid = prop_of c ''_id''))"
proof (cases "i mod 2 = 0")
  case True
  with assms show ?thesis by (auto simp: related_def split: option.splits)
next
  case False
  with assms obtain c where c: "js_index cs (int (i mod length cs)) = Some c"
    and r: "rtype = ''Customer''" "rid = prop_of c ''_id''"
    by (auto simp: related_def split: option.splits)
  from c have "c \<in> set cs" by (auto simp: js_index_def split: if_splits)
  with r show ?thesis by blast
qed

lemma task_obj_fields:
  assumes "task_obj e d a1 a2 cs i k = Inr (t, k')"
  shows "\<exists>rtype rid. related d cs i = Inr (rtype, rid) \<and>
           t = [(''title'', Str (''Follow up '' @ show_int (int i + 1))),
                (''dueDate'', Date (now e i + (int i - 3) * 24 * 60 * 60 * 1000)),
                (''status'', str_val (fst (rand e task_statuses k))),
                (''priority'', str_val (fst (rand e priorities (Suc k)))),
                (''relatedType'', Str rtype), (''relatedId'', rid),
                (''owner'', if i mod 2 = 0 then prop_of a1 ''_id'' else prop_of a2 ''_id'')]"
  using assms
  by (auto simp: task_obj_def rand_def split_def Let_def split: sum.splits)

lemma task_obj_props:
  assumes "task_obj e d a1 a2 cs i k = Inr (t, k')"
  shows "prop_of t ''owner'' = (if i mod 2 = 0 then prop_of a1 ''_id'' else prop_of a2 ''_id'')"
    and "map fst t = [''title'', ''dueDate'', ''status'', ''priority'', ''relatedType'',
                      ''relatedId'', ''owner'']"
    and "prop_of t ''dueDate'' = Date (now e i + (int i - 3) * 24 * 60 * 60 * 1000)"
    and "prop_of t ''status'' = str_val (fst (rand e task_statuses k))"
    and "\<exists>rtype rid. related d cs i = Inr (rtype, rid) \<and>
           prop_of t ''relatedType'' = Str rtype \<and> prop_of t ''relatedId'' = rid"
proof -
  from task_obj_fields[OF assms] obtain rtype rid where
    r: "related d cs i = Inr (rtype, rid)"
    and t: "t = [(''title'', Str (''Follow up '' @ show_int (int i + 1))),
                (''dueDate'', Date (now e i + (int i - 3) * 24 * 60 * 60 * 1000)),
                (''status'', str_val (fst (rand e task_statuses k))),
                (''priority'', str_val (fst (rand e priorities (Suc k)))),
                (''relatedType'', Str rtype), (''relatedId'', rid),
                (''owner'', if i mod 2 = 0 then prop_of a1 ''_id'' else prop_of a2 ''_id'')]"
    by blast
  show "prop_of t ''owner'' = (if i mod 2 = 0 then prop_of a1 ''_id'' else prop_of a2 ''_id'')"
    unfolding t by (simp add: prop_of_def)
  show "map fst t = [''title'', ''dueDate'', ''status'', ''priority'', ''relatedType'',
                      ''relatedId'', ''owner'']"
    unfolding t by simp
  show "prop_of t ''dueDate'' = Date (now e i + (int i - 3) * 24 * 60 * 60 * 1000)"
    unfolding t by (simp add: prop_of_def)
  show "prop_of t ''status'' = str_val (fst (rand e task_statuses k))"
    unfolding t by (simp add: prop_of_def)
  have "prop_of t ''relatedType'' = Str rtype \<and> prop_of t ''relatedId'' = rid"
    unfolding t by (simp add: prop_of_def)
  with r show "\<exists>rtype rid. related d cs i = Inr (rtype, rid) \<and>
           prop_of t ''relatedType'' = Str rtype \<and> prop_of t ''relatedId'' = rid" by blast
qed

lemma users_at_ids:
  "map (\<lambda>u. prop_of u ''_id'') (filter (\<lambda>u. prop_of u ''role'' = Str ''agent'') (users_at n)) =
     [ObjectId (n + 1), ObjectId (n + 2)]"
  "map (\<lambda>u. prop_of u ''_id'') (filter (\<lambda>u. prop_of u ''role'' = Str ''admin'') (users_at n)) =
     [ObjectId n]"
  by (simp_all add: users_at_def prop_of_def admin_obj_def agent1_obj_def agent2_obj_def)

lemma agent_at_id:
  "prop_of (agent1_at n) ''_id'' = ObjectId (n + 1)" "prop_of (agent2_at n) ''_id'' = ObjectId (n + 2)"
  by (simp_all add: agent1_at_def agent2_at_def prop_of_def)

text \<open>
  C8: after the script the database has one admin and two agents with three different
  ids, and the \<open>assignedAgent\<close> of every lead, the \<open>owner\<close> of every customer and the
  \<open>owner\<close> of every task is the id of one of the two agents: never absent, never the
  admin.
\<close>

theorem seed_owners:
  assumes "seed e d0 = Inr d"
  shows "\<exists>n. user_ids ''admin'' d = [ObjectId n] \<and>
             user_ids ''agent'' d = [ObjectId (n + 1), ObjectId (n + 2)] \<and>
             (\<forall>l \<in> set (coll d Lead). prop_of l ''assignedAgent'' \<in> set (user_ids ''agent'' d)) \<and>
             (\<forall>c \<in> set (coll d Customer). prop_of c ''owner'' \<in> set (user_ids ''agent'' d)) \<and>
             (\<forall>t \<in> set (coll d Task). prop_of t ''owner'' \<in> set (user_ids ''agent'' d))"
proof -
  define n where "n = next_id d0"
  let ?A = "{ObjectId (n + 1), ObjectId (n + 2)}"
  have adm: "user_ids ''admin'' d = [ObjectId n]"
    by (simp add: user_ids_def seed_colls(1)[OF assms] users_at_ids n_def)
  have ag: "user_ids ''agent'' d = [ObjectId (n + 1), ObjectId (n + 2)]"
    by (simp add: user_ids_def seed_colls(1)[OF assms] users_at_ids n_def)
  have lead: "prop_of l ''assignedAgent'' \<in> ?A" if "l \<in> set (coll d Lead)" for l
  proof -
    from that obtain j obj where
      obj: "obj \<in> set (fst (leads_loop e (agent1_at n) (agent2_at n) 0 [] 0))"
      and l: "l = (''_id'', ObjectId j) # obj"
      unfolding seed_colls(2)[OF assms] leads_at_def n_def by (blast dest: stamp_set)
    have "prop_of obj ''assignedAgent'' \<in> ?A"
      by (rule leads_loop_set[where P = "\<lambda>x. prop_of x ''assignedAgent'' \<in> ?A", OF _ obj])
        (simp add: lead_obj_agent agent_at_id)
    then show ?thesis by (simp add: l prop_of_stamped)
  qed
  have cust: "prop_of c ''owner'' \<in> ?A" if "c \<in> set (coll d Customer)" for c
  proof -
    from that obtain j obj where
      obj: "obj \<in> set (fst (customers_loop e (agent1_at n) (agent2_at n) 0 []
              (snd (leads_loop e (agent1_at n) (agent2_at n) 0 [] 0))))"
      and c: "c = (''_id'', ObjectId j) # obj"
      unfolding seed_colls(3)[OF assms] customers_at_def n_def by (blast dest: stamp_set)
    have "prop_of obj ''owner'' \<in> ?A"
      by (rule customers_loop_set[where P = "\<lambda>x. prop_of x ''owner'' \<in> ?A", OF _ obj])
        (simp add: customer_obj_owner agent_at_id)
    then show ?thesis by (simp add: c prop_of_stamped)
  qed
  have task: "prop_of t ''owner'' \<in> ?A" if "t \<in> set (coll d Task)" for t
  proof -
    from seed_colls(4)[OF assms] obtain tasks k0 k where
      tl: "tasks_loop e (before_tasks e d0) (agent1_at n) (agent2_at n) (customers_at e n) 0 [] k0 =
             Inr (tasks, k)"
      and ct: "coll d Task = stamp (n + 18) tasks"
      unfolding n_def by blast
    from that have "t \<in> set (stamp (n + 18) tasks)" by (simp add: ct)
    then obtain j obj where obj: "obj \<in> set tasks" and t: "t = (''_id'', ObjectId j) # obj"
      by (blast dest: stamp_set)
    have "prop_of obj ''owner'' \<in> ?A"
    proof (rule tasks_loop_set[where P = "\<lambda>x. prop_of x ''owner'' \<in> ?A", OF _ tl obj])
      fix i k1 t1 k2
      assume "task_obj e (before_tasks e d0) (agent1_at n) (agent2_at n) (customers_at e n) i k1 =
                Inr (t1, k2)"
      from task_obj_props(1)[OF this] show "prop_of t1 ''owner'' \<in> ?A"
        by (simp add: agent_at_id)
    qed
    then show ?thesis by (simp add: t prop_of_stamped)
  qed
  from adm ag lead cust task show ?thesis by (intro exI[of _ n]) simp
qed

theorem seed_owners_witness:
  "seed env0 db0 = Inr seeded0 \<and>
   user_ids ''admin'' seeded0 = [ObjectId 100] \<and>
   user_ids ''agent'' seeded0 = [ObjectId 101, ObjectId 102] \<and>
   map (\<lambda>l. prop_of l ''assignedAgent'') (coll seeded0 Lead) =
     [ObjectId 101, ObjectId 102, ObjectId 101, ObjectId 102, ObjectId 101, ObjectId 102,
      ObjectId 101, ObjectId 102, ObjectId 101, ObjectId 102] \<and>
   map (\<lambda>c. prop_of c ''owner'') (coll seeded0 Customer) =
     [ObjectId 101, ObjectId 102, ObjectId 101, ObjectId 102, ObjectId 101] \<and>
   map (\<lambda>t. prop_of t ''owner'') (coll seeded0 Task) =
     [ObjectId 101, ObjectId 102, ObjectId 101, ObjectId 102, ObjectId 101, ObjectId 102,
      ObjectId 101, ObjectId 102]"
  using seed_owners[OF seed_env0] seed_env0
  by (simp add: seeded0_def leads0_def customers0_def tasks0_def prop_of_simps user_ids_def
      users_at_def admin_obj_def agent1_obj_def agent2_obj_def)

lemma stamp_ids: "x \<in> set (stamp n objs) \<Longrightarrow> \<exists>j. prop_of x ''_id'' = ObjectId j"
  by (auto dest!: stamp_set simp: prop_of_id)

lemma findOne_set: "findOne m d = Some x \<Longrightarrow> x \<in> set (coll d m)"
  by (auto simp: findOne_def split: list.splits)

text \<open>
  C6: every task the script stores has \<open>relatedType\<close> Lead or Customer, and its
  \<open>relatedId\<close> is the \<open>_id\<close> of a document of the collection the tag names. The leads
  and customers are inserted before the task loop starts and are not changed after it.
\<close>

theorem seed_task_related:
  assumes "seed e d0 = Inr d"
  shows "\<forall>t \<in> set (coll d Task).
           (\<exists>j. prop_of t ''relatedId'' = ObjectId j) \<and>
           (prop_of t ''relatedType'' = Str ''Lead'' \<and>
              prop_of t ''relatedId'' \<in> (\<lambda>l. prop_of l ''_id'') ` set (coll d Lead) \<or>
            prop_of t ''relatedType'' = Str ''Customer'' \<and>
              prop_of t ''relatedId'' \<in> (\<lambda>c. prop_of c ''_id'') ` set (coll d Customer))"
proof
  fix t assume tin: "t \<in> set (coll d Task)"
  define n where "n = next_id d0"
  let ?P = "\<lambda>x. (\<exists>j. prop_of x ''relatedId'' = ObjectId j) \<and>
           (prop_of x ''relatedType'' = Str ''Lead'' \<and>
              prop_of x ''relatedId'' \<in> (\<lambda>l. prop_of l ''_id'') ` set (coll d Lead) \<or>
            prop_of x ''relatedType'' = Str ''Customer'' \<and>
              prop_of x ''relatedId'' \<in> (\<lambda>c. prop_of c ''_id'') ` set (coll d Customer))"
  from seed_colls(4)[OF assms] obtain tasks k0 k where
    tl: "tasks_loop e (before_tasks e d0) (agent1_at n) (agent2_at n) (customers_at e n) 0 [] k0 =
           Inr (tasks, k)"
    and ct: "coll d Task = stamp (n + 18) tasks"
    unfolding n_def by blast
  from tin have "t \<in> set (stamp (n + 18) tasks)" by (simp add: ct)
  then obtain j obj where obj: "obj \<in> set tasks" and t: "t = (''_id'', ObjectId j) # obj"
    by (blast dest: stamp_set)
  have bl: "coll (before_tasks e d0) Lead = coll d Lead"
    by (simp add: before_tasks_def seed_colls(2)[OF assms])
  have "?P obj"
  proof (rule tasks_loop_set[where P = ?P, OF _ tl obj])
    fix i k1 t1 k2
    assume "task_obj e (before_tasks e d0) (agent1_at n) (agent2_at n) (customers_at e n) i k1 =
              Inr (t1, k2)"
    from task_obj_props(5)[OF this] obtain rtype rid where
      r: "related (before_tasks e d0) (customers_at e n) i = Inr (rtype, rid)"
      and p: "prop_of t1 ''relatedType'' = Str rtype" "prop_of t1 ''relatedId'' = rid"
      by blast
    from related_cases[OF r] show "?P t1"
    proof
      assume "rtype = ''Lead'' \<and> (\<exists>l. findOne Lead (before_tasks e d0) = Some l \<and> rid = prop_of l ''_id'')"
      then obtain l where rt: "rtype = ''Lead''"
        and l: "findOne Lead (before_tasks e d0) = Some l" and rid: "rid = prop_of l ''_id''"
        by blast
      from findOne_set[OF l] have lin: "l \<in> set (coll d Lead)" by (simp add: bl)
      then have "\<exists>j. prop_of l ''_id'' = ObjectId j"
        unfolding seed_colls(2)[OF assms] leads_at_def by (rule stamp_ids)
      with lin rt rid p show ?thesis by auto
    next
      assume "rtype = ''Customer'' \<and> (\<exists>c \<in> set (customers_at e n). rid = prop_of c ''_id'')"
      then obtain c where rt: "rtype = ''Customer''"
        and cin: "c \<in> set (customers_at e n)" and rid: "rid = prop_of c ''_id''"
        by blast
      from cin have "\<exists>j. prop_of c ''_id'' = ObjectId j"
        unfolding customers_at_def by (rule stamp_ids)
      moreover from cin have "c \<in> set (coll d Customer)"
        by (simp add: seed_colls(3)[OF assms] n_def)
      ultimately show ?thesis using rt rid p by auto
    qed
  qed
  then show "?P t" by (simp add: t prop_of_stamped)
qed

theorem seed_task_related_witness:
  "seed env0 db0 = Inr seeded0 \<and>
   map (\<lambda>t. (prop_of t ''relatedType'', prop_of t ''relatedId'')) (coll seeded0 Task) =
     [(Str ''Lead'', ObjectId 103), (Str ''Customer'', ObjectId 114),
      (Str ''Lead'', ObjectId 103), (Str ''Customer'', ObjectId 116),
      (Str ''Lead'', ObjectId 103), (Str ''Customer'', ObjectId 113),
      (Str ''Lead'', ObjectId 103), (Str ''Customer'', ObjectId 115)] \<and>
   map (\<lambda>l. prop_of l ''_id'') (coll seeded0 Lead) =
     [ObjectId 103, ObjectId 104, ObjectId 105, ObjectId 106, ObjectId 107, ObjectId 108,
      ObjectId 109, ObjectId 110, ObjectId 111, ObjectId 112] \<and>
   map (\<lambda>c. prop_of c ''_id'') (coll seeded0 Customer) =
     [ObjectId 113, ObjectId 114, ObjectId 115, ObjectId 116, ObjectId 117]"
  using seed_task_related[OF seed_env0] seed_env0
  by (simp add: seeded0_def leads0_def customers0_def tasks0_def prop_of_simps)

text \<open>
  C5: a task with a due date is overdue exactly when the due date is before now and the
  status is not Done, so a Done task is never overdue; no task the script stores has an
  \<open>overdue\<close> field, and each has a \<open>dueDate\<close> to derive it from.
\<close>

theorem task_overdue_derived:
  assumes "seed e d0 = Inr d"
  shows "(\<forall>task due. prop_of task ''dueDate'' = Date due \<longrightarrow>
            overdue q task = (due < q \<and> prop_of task ''status'' \<noteq> Str ''Done'')) \<and>
         (\<forall>task. prop_of task ''status'' = Str ''Done'' \<longrightarrow> \<not> overdue q task) \<and>
         (\<forall>t \<in> set (coll d Task).
            ''overdue'' \<notin> fst ` set t \<and> (\<exists>due. prop_of t ''dueDate'' = Date due))"
proof (intro conjI allI impI ballI)
  fix task due assume "prop_of task ''dueDate'' = Date due"
  then show "overdue q task = (due < q \<and> prop_of task ''status'' \<noteq> Str ''Done'')"
    by (simp add: overdue_def)
next
  fix task assume "prop_of task ''status'' = Str ''Done''"
  then show "\<not> overdue q task" by (simp add: overdue_def split: jsval.splits)
next
  fix t assume tin: "t \<in> set (coll d Task)"
  define n where "n = next_id d0"
  let ?P = "\<lambda>x. ''overdue'' \<notin> fst ` set x \<and> (\<exists>due. prop_of x ''dueDate'' = Date due)"
  from seed_colls(4)[OF assms] obtain tasks k0 k where
    tl: "tasks_loop e (before_tasks e d0) (agent1_at n) (agent2_at n) (customers_at e n) 0 [] k0 =
           Inr (tasks, k)"
    and ct: "coll d Task = stamp (n + 18) tasks"
    unfolding n_def by blast
  from tin have "t \<in> set (stamp (n + 18) tasks)" by (simp add: ct)
  then obtain j obj where obj: "obj \<in> set tasks" and t: "t = (''_id'', ObjectId j) # obj"
    by (blast dest: stamp_set)
  have "?P obj"
  proof (rule tasks_loop_set[where P = ?P, OF _ tl obj])
    fix i k1 t1 k2
    assume a: "task_obj e (before_tasks e d0) (agent1_at n) (agent2_at n) (customers_at e n) i k1 =
              Inr (t1, k2)"
    have "fst ` set t1 = set (map fst t1)" by simp
    then have "''overdue'' \<notin> fst ` set t1" unfolding task_obj_props(2)[OF a] by simp
    with task_obj_props(3)[OF a] show "?P t1" by blast
  qed
  then show "''overdue'' \<notin> fst ` set t" "\<exists>due. prop_of t ''dueDate'' = Date due"
    by (simp_all add: t prop_of_stamped)
qed

theorem task_overdue_derived_witness:
  "seed env0 db0 = Inr seeded0 \<and>
   map (\<lambda>t. (prop_of t ''dueDate'', prop_of t ''status'', overdue 1700000000000 t))
     (coll seeded0 Task) =
     [(Date 1699740800000, Str ''Open'', True),
      (Date 1699827200001, Str ''In Progress'', True),
      (Date 1699913600002, Str ''Done'', False),
      (Date 1700000000003, Str ''Open'', False),
      (Date 1700086400004, Str ''Open'', False),
      (Date 1700172800005, Str ''In Progress'', False),
      (Date 1700259200006, Str ''Done'', False),
      (Date 1700345600007, Str ''Open'', False)] \<and>
   map (map fst) (take 1 (coll seeded0 Task)) =
     [[''_id'', ''title'', ''dueDate'', ''status'', ''priority'', ''relatedType'', ''relatedId'',
       ''owner'']]"
  using task_overdue_derived[OF seed_env0, of 1700000000000] seed_env0
  by (simp add: seeded0_def tasks0_def prop_of_simps overdue_def)

text \<open>
  C10: whatever the database held before, the script ends with exit code 0 and leaves
  exactly three users (the admin, then the two agents), ten leads, five customers and
  eight tasks; the outcome is the one of a run on a database whose four collections were
  empty, since the four \<open>deleteMany\<close> calls come first.
\<close>

theorem seed_counts:
  "\<exists>d. seed e d0 = Inr d \<and>
        seed e (d0\<lparr>coll := (coll d0)(User := [], Lead := [], Customer := [], Task := [])\<rparr>) = Inr d \<and>
        map (\<lambda>u. prop_of u ''role'') (coll d User) = [Str ''admin'', Str ''agent'', Str ''agent''] \<and>
        length (coll d User) = 3 \<and> length (coll d Lead) = 10 \<and>
        length (coll d Customer) = 5 \<and> length (coll d Task) = 8"
proof -
  obtain d where d: "seed e d0 = Inr d" using seed_total by blast
  have "seed e (d0\<lparr>coll := (coll d0)(User := [], Lead := [], Customer := [], Task := [])\<rparr>) =
      seed e d0"
    by (simp add: seed_def deleteMany_def)
  moreover have "map (\<lambda>u. prop_of u ''role'') (coll d User) =
      [Str ''admin'', Str ''agent'', Str ''agent'']"
    by (simp add: seed_colls(1)[OF d] users_at_def prop_of_def admin_obj_def agent1_obj_def
        agent2_obj_def)
  moreover have "length (coll d Task) = 8"
    using seed_colls(4)[OF d] by (auto simp: length_stamp)
  ultimately show ?thesis
    using d by (simp add: seed_colls[OF d] length_leads_at length_customers_at users_at_def)
qed


section \<open>Properties of login\<close>

text \<open>
  C4: the script creates exactly one user with the email admin@crm.com; its password is
  Admin@123 and its role admin. After the script, a login with that email and that password
  is answered 200 with an access token and a refresh token that are not empty, and a login
  with that email and any other password is answered 401 with a \<open>{message}\<close> body.
\<close>

theorem seeded_admin_login:
  assumes "seed e d0 = Inr d" and "w \<noteq> ''Admin@123''"
  shows "(\<exists>u. filter (\<lambda>u. prop_of u ''email'' = Str ''admin@crm.com'') (coll d User) = [u] \<and>
              prop_of u ''password'' = Str ''Admin@123'' \<and> prop_of u ''role'' = Str ''admin'') \<and>
         (\<exists>ta tr usr.
            login_response (login s (coll d User) ''admin@crm.com'' ''Admin@123'') =
              \<lparr>status = 200,
               payload = Obj [(''accessToken'', Str ta), (''refreshToken'', Str tr),
                              (''user'', usr)]\<rparr> \<and>
            ta \<noteq> [] \<and> tr \<noteq> []) \<and>
         (\<exists>m. login_response (login s (coll d User) ''admin@crm.com'' w) =
              \<lparr>status = 401, payload = Obj [(''message'', Str m)]\<rparr>)"
proof -
  have u: "coll d User = users_at (next_id d0)" by (rule seed_colls(1)[OF assms(1)])
  have f: "find (\<lambda>u. prop_of u ''email'' = Str ''admin@crm.com'') (users_at (next_id d0)) =
      Some ((''_id'', ObjectId (next_id d0)) # admin_obj)"
    by (simp add: users_at_def admin_obj_def prop_of_simps)
  have p: "prop_of ((''_id'', ObjectId (next_id d0)) # admin_obj) ''password'' = Str ''Admin@123''"
    "prop_of ((''_id'', ObjectId (next_id d0)) # admin_obj) ''isActive'' = Undefined"
    "prop_of ((''_id'', ObjectId (next_id d0)) # admin_obj) ''role'' = Str ''admin''"
    by (simp_all add: admin_obj_def prop_of_simps)
  have "filter (\<lambda>u. prop_of u ''email'' = Str ''admin@crm.com'') (coll d User) =
      [(''_id'', ObjectId (next_id d0)) # admin_obj]"
    by (simp add: u users_at_def admin_obj_def agent1_obj_def agent2_obj_def prop_of_simps)
  with p have one: "\<exists>u. filter (\<lambda>u. prop_of u ''email'' = Str ''admin@crm.com'') (coll d User) = [u] \<and>
              prop_of u ''password'' = Str ''Admin@123'' \<and> prop_of u ''role'' = Str ''admin''"
    by blast
  have good: "\<exists>ta tr usr.
            login_response (login s (coll d User) ''admin@crm.com'' ''Admin@123'') =
              \<lparr>status = 200,
               payload = Obj [(''accessToken'', Str ta), (''refreshToken'', Str tr),
                              (''user'', usr)]\<rparr> \<and>
            ta \<noteq> [] \<and> tr \<noteq> []"
    by (simp add: u login_def f p login_response_def jwt_def Let_def)
  have bad: "\<exists>m. login_response (login s (coll d User) ''admin@crm.com'' w) =
              \<lparr>status = 401, payload = Obj [(''message'', Str m)]\<rparr>"
    using assms(2) by (simp add: u login_def f p login_response_def)
  from one good bad show ?thesis by blast
qed

theorem seeded_admin_login_witness:
  "seed env0 db0 = Inr seeded0 \<and> ''admin123'' \<noteq> ''Admin@123'' \<and>
   login_response (login signer0 (coll seeded0 User) ''admin@crm.com'' ''Admin@123'') =
     \<lparr>status = 200,
      payload = Obj [(''accessToken'', Str ''..''), (''refreshToken'', Str ''..''),
                     (''user'', Obj [(''id'', ObjectId 100), (''role'', Str ''admin''),
                                     (''name'', Str ''Admin User'')])]\<rparr> \<and>
   login_response (login signer0 (coll seeded0 User) ''admin@crm.com'' ''admin123'') =
     \<lparr>status = 401, payload = Obj [(''message'', Str ''Invalid credentials'')]\<rparr>"
  using seeded_admin_login[OF seed_env0, of "''admin123''" signer0] seed_env0
  by (simp add: seeded0_def users_at_def admin_obj_def prop_of_simps login_def
      login_response_def jwt_def signer0_def claims_of_def Let_def)

section \<open>Properties of the auth router\<close>

declare decodeURIComponent.simps [simp del]

lemma toLowerCase_lit:
  "toLowerCase ''register'' = ''register''" "toLowerCase ''login'' = ''login''"
  "toLowerCase ''refresh'' = ''refresh''" "toLowerCase ''logout'' = ''logout''"
  "toLowerCase ''users'' = ''users''"
  by (simp_all add: toLowerCase_def lower_char_def)

lemma path_lit:
  "list_all2 seg_match [Lit s] xs \<longleftrightarrow> (\<exists>x. xs = [x] \<and> toLowerCase x = toLowerCase s)"
  by (auto simp: list_all2_Cons1)

lemma path_lit_par:
  "list_all2 seg_match [Lit s, Par q] xs \<longleftrightarrow>
     (\<exists>x y. xs = [x, y] \<and> toLowerCase x = toLowerCase s \<and> y \<noteq> [])"
  by (auto simp: list_all2_Cons1)

lemma router_cases:
  assumes "(v, p, hs) \<in> set router"
  shows "v = POST \<and> p = [Lit ''register''] \<and> hs = [Auth, RequireRole [''admin''], Rules ''register'', Ctrl ''register'']
    \<or> v = POST \<and> p = [Lit ''login''] \<and> hs = [Rules ''login'', Ctrl ''login'']
    \<or> v = POST \<and> p = [Lit ''refresh''] \<and> hs = [Rules ''refresh'', Ctrl ''refresh'']
    \<or> v = POST \<and> p = [Lit ''logout''] \<and> hs = [Ctrl ''logout'']
    \<or> v = GET \<and> p = [Lit ''users''] \<and> hs = [Auth, RequireRole [''admin''], Ctrl ''listUsers'']
    \<or> v = PATCH \<and> p = [Lit ''users'', Par ''id''] \<and> hs = [Auth, RequireRole [''admin''], Ctrl ''updateUser'']
    \<or> v = DELETE \<and> p = [Lit ''users'', Par ''id''] \<and> hs = [Auth, RequireRole [''admin''], Ctrl ''deleteUser'']"
  using assms unfolding router_def by simp

lemma handle_route:
  assumes "(v, p, hs) \<in> set router" "matches v p r" "decodes p (path r)"
    and "run a hs r = (called, Inl resp)"
  shows "handle a r = (called, Sent resp)"
  using router_cases[OF assms(1)]
proof (elim disjE conjE)
    assume r: "v = POST" "p = [Lit ''register'']"
      "hs = [Auth, RequireRole [''admin''], Rules ''register'', Ctrl ''register'']"
    from r(1,2) assms(2) obtain x where "handles_method POST (verb r)" "path r = [x]"
      "toLowerCase x = ''register''"
      by (auto simp: matches_def path_lit toLowerCase_lit)
    with assms(4) r show ?thesis
      by (auto simp: handle_def router_def path_lit path_lit_par toLowerCase_lit
          handles_method_def simp del: run.simps)
  next
    assume r: "v = POST" "p = [Lit ''login'']"
      "hs = [Rules ''login'', Ctrl ''login'']"
    from r(1,2) assms(2) obtain x where "handles_method POST (verb r)" "path r = [x]"
      "toLowerCase x = ''login''"
      by (auto simp: matches_def path_lit toLowerCase_lit)
    with assms(4) r show ?thesis
      by (auto simp: handle_def router_def path_lit path_lit_par toLowerCase_lit
          handles_method_def simp del: run.simps)
  next
    assume r: "v = POST" "p = [Lit ''refresh'']"
      "hs = [Rules ''refresh'', Ctrl ''refresh'']"
    from r(1,2) assms(2) obtain x where "handles_method POST (verb r)" "path r = [x]"
      "toLowerCase x = ''refresh''"
      by (auto simp: matches_def path_lit toLowerCase_lit)
    with assms(4) r show ?thesis
      by (auto simp: handle_def router_def path_lit path_lit_par toLowerCase_lit
          handles_method_def simp del: run.simps)
  next
    assume r: "v = POST" "p = [Lit ''logout'']"
      "hs = [Ctrl ''logout'']"
    from r(1,2) assms(2) obtain x where "handles_method POST (verb r)" "path r = [x]"
      "toLowerCase x = ''logout''"
      by (auto simp: matches_def path_lit toLowerCase_lit)
    with assms(4) r show ?thesis
      by (auto simp: handle_def router_def path_lit path_lit_par toLowerCase_lit
          handles_method_def simp del: run.simps)
  next
    assume r: "v = GET" "p = [Lit ''users'']"
      "hs = [Auth, RequireRole [''admin''], Ctrl ''listUsers'']"
    from r(1,2) assms(2) obtain x where "handles_method GET (verb r)" "path r = [x]"
      "toLowerCase x = ''users''"
      by (auto simp: matches_def path_lit toLowerCase_lit)
    with assms(4) r show ?thesis
      by (auto simp: handle_def router_def path_lit path_lit_par toLowerCase_lit
          handles_method_def simp del: run.simps)
  next
    assume r: "v = PATCH" "p = [Lit ''users'', Par ''id'']"
      "hs = [Auth, RequireRole [''admin''], Ctrl ''updateUser'']"
    from r(1,2) assms(2,3) obtain x y where "handles_method PATCH (verb r)" "path r = [x, y]"
      "toLowerCase x = ''users''" "y \<noteq> []" "decodeURIComponent y \<noteq> None"
      by (auto simp: matches_def path_lit_par toLowerCase_lit)
    with assms(4) r show ?thesis
      by (auto simp: handle_def router_def path_lit path_lit_par toLowerCase_lit
          handles_method_def simp del: run.simps)
  next
    assume r: "v = DELETE" "p = [Lit ''users'', Par ''id'']"
      "hs = [Auth, RequireRole [''admin''], Ctrl ''deleteUser'']"
    from r(1,2) assms(2,3) obtain x y where "handles_method DELETE (verb r)" "path r = [x, y]"
      "toLowerCase x = ''users''" "y \<noteq> []" "decodeURIComponent y \<noteq> None"
      by (auto simp: matches_def path_lit_par toLowerCase_lit)
    with assms(4) r show ?thesis
      by (auto simp: handle_def router_def path_lit path_lit_par toLowerCase_lit
          handles_method_def simp del: run.simps)
qed

lemma handle_undecodable:
  assumes "list_all2 seg_match [Lit ''users'', Par q] (path r)"
    and "\<not> decodes [Lit ''users'', Par q] (path r)"
  shows "handle a r = ([], Failed 400)"
proof -
  from assms obtain x y where "path r = [x, y]" "toLowerCase x = ''users''" "y \<noteq> []"
    "decodeURIComponent y = None"
    by (auto simp: path_lit_par toLowerCase_lit)
  then show ?thesis
    by (simp add: handle_def router_def path_lit path_lit_par toLowerCase_lit)
qed


lemma admin_route_chain:
  assumes "(v, p) \<in> set admin_routes"
  shows "\<exists>rest c. (v, p, Auth # RequireRole [''admin''] # rest @ [Ctrl c]) \<in> set router \<and>
                  (\<forall>n. Ctrl n \<notin> set rest)"
proof -
  from assms have "(v, p) = (POST, [Lit ''register'']) \<or> (v, p) = (GET, [Lit ''users'']) \<or>
      (v, p) = (PATCH, [Lit ''users'', Par ''id'']) \<or> (v, p) = (DELETE, [Lit ''users'', Par ''id''])"
    unfolding admin_routes_def by simp
  then show ?thesis
  proof (elim disjE)
    assume "(v, p) = (POST, [Lit ''register''])"
    then show ?thesis
      by (intro exI[of _ "[Rules ''register'']"] exI[of _ "''register''"]) (simp add: router_def)
  next
    assume "(v, p) = (GET, [Lit ''users''])"
    then show ?thesis
      by (intro exI[of _ "[]"] exI[of _ "''listUsers''"]) (simp add: router_def)
  next
    assume "(v, p) = (PATCH, [Lit ''users'', Par ''id''])"
    then show ?thesis
      by (intro exI[of _ "[]"] exI[of _ "''updateUser''"]) (simp add: router_def)
  next
    assume "(v, p) = (DELETE, [Lit ''users'', Par ''id''])"
    then show ?thesis
      by (intro exI[of _ "[]"] exI[of _ "''deleteUser''"]) (simp add: router_def)
  qed
qed

lemma admin_route_undecodable:
  assumes "(v, p) \<in> set admin_routes" "matches v p r" "\<not> decodes p (path r)"
  shows "handle a r = ([], Failed 400)"
proof -
  from assms(1) have "p = [Lit ''register''] \<or> p = [Lit ''users''] \<or>
      p = [Lit ''users'', Par ''id'']"
    unfolding admin_routes_def by auto
  then show ?thesis
  proof (elim disjE)
    assume p: "p = [Lit ''register'']"
    with assms(2) obtain x where "path r = [x]" by (auto simp: matches_def path_lit)
    with assms(3) p show ?thesis by simp
  next
    assume p: "p = [Lit ''users'']"
    with assms(2) obtain x where "path r = [x]" by (auto simp: matches_def path_lit)
    with assms(3) p show ?thesis by simp
  next
    assume p: "p = [Lit ''users'', Par ''id'']"
    with assms(2) have "list_all2 seg_match [Lit ''users'', Par ''id''] (path r)"
      by (simp add: matches_def)
    from handle_undecodable[OF this] assms(3) p show ?thesis by simp
  qed
qed

lemma decode_samples:
  "decodeURIComponent ''42'' = Some ''42''" "decodeURIComponent ''%E0%A4%A'' = None"
  by code_simp+

text \<open>
  C1 as stated fails twice. POST /logout is registered with its controller alone, so a
  request with no token at all reaches the controller and is answered by it. And a
  DELETE /users/:id whose id is not valid percent-encoding is not answered 401: the router
  gives up with the URIError, status 400, before the auth middleware is called.
\<close>

theorem unauthenticated_not_401:
  "token_identity (verify open_deps) (anonymous POST [''logout'']) = None \<and>
   handle open_deps (anonymous POST [''logout'']) =
     ([Ctrl ''logout''], Sent \<lparr>status = 200, payload = Null\<rparr>) \<and>
   token_identity (verify open_deps) (anonymous DELETE [''users'', ''%E0%A4%A'']) = None \<and>
   matches DELETE [Lit ''users'', Par ''id''] (anonymous DELETE [''users'', ''%E0%A4%A'']) \<and>
   handle open_deps (anonymous DELETE [''users'', ''%E0%A4%A'']) = ([], Failed 400)"
  by (simp add: token_identity_def bearer_def anonymous_def handle_def router_def
      matches_def handles_method_def path_lit path_lit_par toLowerCase_lit open_deps_def ok_def
      decode_samples)

text \<open>
  C1, amended: the routes of the auth router are the four admin routes and login, refresh
  and logout. A request for one of the four admin routes without a valid bearer access
  token never reaches a controller: it is answered 401 by the auth middleware, the only
  handler called, unless a path parameter does not decode, and then the router fails it
  with status 400 and calls no handler at all. Login, refresh and logout are reachable
  without a token: their chains have no auth middleware, and the request goes to the
  validation rules (login, refresh) and the controller.
\<close>

theorem auth_router_guard:
  assumes "token_identity (verify a) r = None"
  shows "set (map (\<lambda>(v, p, hs). (v, p)) router) =
           set admin_routes \<union>
           {(POST, [Lit ''login'']), (POST, [Lit ''refresh'']), (POST, [Lit ''logout''])} \<and>
         (\<forall>(v, p) \<in> set admin_routes.
            matches v p r \<longrightarrow>
            handle a r =
              (if decodes p (path r) then ([Auth], Sent unauthorized) else ([], Failed 400))) \<and>
         status unauthorized = 401 \<and>
         (matches POST [Lit ''login''] r \<longrightarrow>
            handle a r =
              (case validate a ''login'' r of
                 Some resp \<Rightarrow> ([Rules ''login''], Sent resp)
               | None \<Rightarrow> ([Rules ''login'', Ctrl ''login''], Sent (controller a ''login'' r)))) \<and>
         (matches POST [Lit ''refresh''] r \<longrightarrow>
            handle a r =
              (case validate a ''refresh'' r of
                 Some resp \<Rightarrow> ([Rules ''refresh''], Sent resp)
               | None \<Rightarrow> ([Rules ''refresh'', Ctrl ''refresh''], Sent (controller a ''refresh'' r)))) \<and>
         (matches POST [Lit ''logout''] r \<longrightarrow>
            handle a r = ([Ctrl ''logout''], Sent (controller a ''logout'' r)))"
proof (intro conjI)
  show "set (map (\<lambda>(v, p, hs). (v, p)) router) =
           set admin_routes \<union>
           {(POST, [Lit ''login'']), (POST, [Lit ''refresh'']), (POST, [Lit ''logout''])}"
    unfolding router_def admin_routes_def by (simp add: insert_commute)
  show "\<forall>(v, p) \<in> set admin_routes.
            matches v p r \<longrightarrow>
            handle a r =
              (if decodes p (path r) then ([Auth], Sent unauthorized) else ([], Failed 400))"
  proof (intro ballI, clarify)
    fix v p assume vp: "(v, p) \<in> set admin_routes" and m: "matches v p r"
    show "handle a r =
        (if decodes p (path r) then ([Auth], Sent unauthorized) else ([], Failed 400))"
    proof (cases "decodes p (path r)")
      case True
      from admin_route_chain[OF vp] obtain rest c where
        "(v, p, Auth # RequireRole [''admin''] # rest @ [Ctrl c]) \<in> set router" by blast
      from handle_route[OF this m True] assms True show ?thesis
        by (simp add: auth_def)
    next
      case False
      with admin_route_undecodable[OF vp m] show ?thesis by simp
    qed
  qed
  show "status unauthorized = 401" by (simp add: unauthorized_def)
  show "matches POST [Lit ''login''] r \<longrightarrow>
            handle a r =
              (case validate a ''login'' r of
                 Some resp \<Rightarrow> ([Rules ''login''], Sent resp)
               | None \<Rightarrow> ([Rules ''login'', Ctrl ''login''], Sent (controller a ''login'' r)))"
  proof
    assume m: "matches POST [Lit ''login''] r"
    then obtain x where "path r = [x]" by (auto simp: matches_def path_lit)
    then have d: "decodes [Lit ''login''] (path r)" by simp
    have "(POST, [Lit ''login''], [Rules ''login'', Ctrl ''login'']) \<in> set router"
      by (simp add: router_def)
    from handle_route[OF this m d] show "handle a r =
              (case validate a ''login'' r of
                 Some resp \<Rightarrow> ([Rules ''login''], Sent resp)
               | None \<Rightarrow> ([Rules ''login'', Ctrl ''login''], Sent (controller a ''login'' r)))"
      by (cases "validate a ''login'' r") simp_all
  qed
  show "matches POST [Lit ''refresh''] r \<longrightarrow>
            handle a r =
              (case validate a ''refresh'' r of
                 Some resp \<Rightarrow> ([Rules ''refresh''], Sent resp)
               | None \<Rightarrow> ([Rules ''refresh'', Ctrl ''refresh''], Sent (controller a ''refresh'' r)))"
  proof
    assume m: "matches POST [Lit ''refresh''] r"
    then obtain x where "path r = [x]" by (auto simp: matches_def path_lit)
    then have d: "decodes [Lit ''refresh''] (path r)" by simp
    have "(POST, [Lit ''refresh''], [Rules ''refresh'', Ctrl ''refresh'']) \<in> set router"
      by (simp add: router_def)
    from handle_route[OF this m d] show "handle a r =
              (case validate a ''refresh'' r of
                 Some resp \<Rightarrow> ([Rules ''refresh''], Sent resp)
               | None \<Rightarrow> ([Rules ''refresh'', Ctrl ''refresh''], Sent (controller a ''refresh'' r)))"
      by (cases "validate a ''refresh'' r") simp_all
  qed
  show "matches POST [Lit ''logout''] r \<longrightarrow>
            handle a r = ([Ctrl ''logout''], Sent (controller a ''logout'' r))"
  proof
    assume m: "matches POST [Lit ''logout''] r"
    then obtain x where "path r = [x]" by (auto simp: matches_def path_lit)
    then have d: "decodes [Lit ''logout''] (path r)" by simp
    have "(POST, [Lit ''logout''], [Ctrl ''logout'']) \<in> set router"
      by (simp add: router_def)
    from handle_route[OF this m d] show "handle a r = ([Ctrl ''logout''], Sent (controller a ''logout'' r))"
      by simp
  qed
qed

theorem auth_router_guard_witness:
  "token_identity (verify open_deps) (anonymous DELETE [''users'', ''42'']) = None \<and>
   matches DELETE [Lit ''users'', Par ''id''] (anonymous DELETE [''users'', ''42'']) \<and>
   decodes [Lit ''users'', Par ''id''] (path (anonymous DELETE [''users'', ''42''])) \<and>
   handle open_deps (anonymous DELETE [''users'', ''42'']) =
     ([Auth], Sent \<lparr>status = 401, payload = Obj [(''message'', Str ''Unauthorized'')]\<rparr>) \<and>
   matches GET [Lit ''users''] (anonymous HEAD [''Users'']) \<and>
   handle open_deps (anonymous HEAD [''Users'']) =
     ([Auth], Sent \<lparr>status = 401, payload = Obj [(''message'', Str ''Unauthorized'')]\<rparr>) \<and>
   matches POST [Lit ''login''] (anonymous POST [''Login'']) \<and>
   handle open_deps (anonymous POST [''Login'']) =
     ([Rules ''login'', Ctrl ''login''], Sent \<lparr>status = 200, payload = Null\<rparr>)"
proof -
  have t: "token_identity (verify open_deps) (anonymous v p) = None" for v p
    by (simp add: token_identity_def bearer_def anonymous_def)
  have low: "toLowerCase ''Login'' = ''login''" "toLowerCase ''Users'' = ''users''"
    by code_simp+
  have m1: "matches DELETE [Lit ''users'', Par ''id''] (anonymous DELETE [''users'', ''42''])"
    by (simp add: matches_def handles_method_def path_lit_par anonymous_def toLowerCase_lit)
  have d1: "decodes [Lit ''users'', Par ''id''] (path (anonymous DELETE [''users'', ''42'']))"
    by (simp add: anonymous_def decode_samples)
  have m2: "matches GET [Lit ''users''] (anonymous HEAD [''Users''])"
    by (simp add: matches_def handles_method_def path_lit anonymous_def toLowerCase_lit low)
  have d2: "decodes [Lit ''users''] (path (anonymous HEAD [''Users'']))"
    by (simp add: anonymous_def)
  have m3: "matches POST [Lit ''login''] (anonymous POST [''Login''])"
    by (simp add: matches_def handles_method_def path_lit anonymous_def toLowerCase_lit low)
  have a1: "(DELETE, [Lit ''users'', Par ''id'']) \<in> set admin_routes"
    and a2: "(GET, [Lit ''users'']) \<in> set admin_routes"
    by (simp_all add: admin_routes_def)
  from auth_router_guard[OF t, of DELETE "[''users'', ''42'']"] a1 m1 d1
  have h1: "handle open_deps (anonymous DELETE [''users'', ''42'']) = ([Auth], Sent unauthorized)"
    by (auto simp del: decodes.simps)
  from auth_router_guard[OF t, of HEAD "[''Users'']"] a2 m2 d2
  have h2: "handle open_deps (anonymous HEAD [''Users'']) = ([Auth], Sent unauthorized)"
    by (auto simp del: decodes.simps)
  from auth_router_guard[OF t, of POST "[''Login'']"] m3
  have h3: "handle open_deps (anonymous POST [''Login'']) =
      ([Rules ''login'', Ctrl ''login''], Sent ok)"
    by (simp add: open_deps_def)
  from t m1 d1 m2 m3 h1 h2 h3 show ?thesis
    by (simp add: unauthorized_def ok_def del: decodes.simps)
qed

text \<open>
  C2 as stated fails: a caller with a valid token and the role agent who sends
  DELETE /users/:id with an id that is not valid percent-encoding does not receive 403.
  The router fails the request with status 400 before auth and the role gate are called.
\<close>

theorem agent_not_403:
  "(DELETE, [Lit ''users'', Par ''id'']) \<in> set admin_routes \<and>
   matches DELETE [Lit ''users'', Par ''id'']
     (authenticated ''agent-token'' DELETE [''users'', ''%E0%A4%A'']) \<and>
   token_identity (verify open_deps) (authenticated ''agent-token'' DELETE [''users'', ''%E0%A4%A'']) =
     Some [(''id'', Str ''u2''), (''role'', Str ''agent''), (''name'', Str ''Agent One'')] \<and>
   handle open_deps (authenticated ''agent-token'' DELETE [''users'', ''%E0%A4%A'']) =
     ([], Failed 400)"
  by (simp add: admin_routes_def token_identity_def bearer_def authenticated_def anonymous_def
      handle_def router_def matches_def handles_method_def path_lit path_lit_par toLowerCase_lit
      open_deps_def decode_samples)

text \<open>
  C2, amended: POST /register, GET /users, PATCH /users/:id and DELETE /users/:id each run
  auth, then requireRole('admin'), then (after the validation rules of register) the
  controller, which is the last handler of the chain. A caller whose token is valid and
  whose role is not admin never reaches the controller: the role gate answers 403, after
  auth and before anything else, unless a path parameter does not decode, and then the
  router fails the request with status 400 and calls no handler at all.
\<close>

theorem admin_gate:
  assumes "(v, p) \<in> set admin_routes" and "matches v p r"
    and "token_identity (verify a) r = Some u" and "prop_of u ''role'' \<noteq> Str ''admin''"
  shows "(\<exists>rest c. (v, p, Auth # RequireRole [''admin''] # rest @ [Ctrl c]) \<in> set router \<and>
                   (\<forall>n. Ctrl n \<notin> set rest)) \<and>
         handle a r =
           (if decodes p (path r) then ([Auth, RequireRole [''admin'']], Sent forbidden)
            else ([], Failed 400)) \<and>
         status forbidden = 403"
proof -
  from admin_route_chain[OF assms(1)] obtain rest c where
    rt: "(v, p, Auth # RequireRole [''admin''] # rest @ [Ctrl c]) \<in> set router"
    and nc: "\<forall>n. Ctrl n \<notin> set rest" by blast
  have run: "run a (Auth # RequireRole [''admin''] # rest @ [Ctrl c]) r =
      ([Auth, RequireRole [''admin'']], Inl forbidden)"
    using assms(3,4) by (auto simp: auth_def requireRole_def)
  have "handle a r =
      (if decodes p (path r) then ([Auth, RequireRole [''admin'']], Sent forbidden)
       else ([], Failed 400))"
  proof (cases "decodes p (path r)")
    case True
    from handle_route[OF rt assms(2) True run] True show ?thesis by simp
  next
    case False
    with admin_route_undecodable[OF assms(1,2)] show ?thesis by simp
  qed
  with rt nc show ?thesis by (auto simp: forbidden_def)
qed

theorem admin_gate_witness:
  "(DELETE, [Lit ''users'', Par ''id'']) \<in> set admin_routes \<and>
   matches DELETE [Lit ''users'', Par ''id''] (authenticated ''agent-token'' DELETE [''users'', ''42'']) \<and>
   decodes [Lit ''users'', Par ''id''] (path (authenticated ''agent-token'' DELETE [''users'', ''42''])) \<and>
   token_identity (verify open_deps) (authenticated ''agent-token'' DELETE [''users'', ''42'']) =
     Some [(''id'', Str ''u2''), (''role'', Str ''agent''), (''name'', Str ''Agent One'')] \<and>
   prop_of [(''id'', Str ''u2''), (''role'', Str ''agent''), (''name'', Str ''Agent One'')] ''role''
     \<noteq> Str ''admin'' \<and>
   handle open_deps (authenticated ''agent-token'' DELETE [''users'', ''42'']) =
     ([Auth, RequireRole [''admin'']],
      Sent \<lparr>status = 403, payload = Obj [(''message'', Str ''Forbidden'')]\<rparr>)"
proof -
  let ?r = "authenticated ''agent-token'' DELETE [''users'', ''42'']"
  let ?u = "[(''id'', Str ''u2''), (''role'', Str ''agent''), (''name'', Str ''Agent One'')]"
  have a: "(DELETE, [Lit ''users'', Par ''id'']) \<in> set admin_routes"
    by (simp add: admin_routes_def)
  have m: "matches DELETE [Lit ''users'', Par ''id''] ?r"
    by (simp add: matches_def handles_method_def path_lit_par authenticated_def anonymous_def
        toLowerCase_lit)
  have d: "decodes [Lit ''users'', Par ''id''] (path ?r)"
    by (simp add: authenticated_def anonymous_def decode_samples)
  have t: "token_identity (verify open_deps) ?r = Some ?u"
    by (simp add: token_identity_def bearer_def authenticated_def anonymous_def open_deps_def)
  have r: "prop_of ?u ''role'' \<noteq> Str ''admin''" by (simp add: prop_of_def)
  from admin_gate[OF a m t r] a m d t r show ?thesis
    by (simp add: forbidden_def del: decodes.simps)
qed

section \<open>Properties of the login page\<close>

text \<open>
  C9: when \<open>login\<close> throws, \<open>onSubmit\<close> adds one call to those \<open>login\<close> made itself:
  an alert. It stores nothing and does not navigate. The alert shows the message of the
  server's response when there is one that is not empty, and Login failed otherwise.
\<close>

theorem onSubmit_failure:
  assumes "ctx_login (prop_of d ''email'') (prop_of d ''password'') = (calls, Inl e)"
  shows "onSubmit ctx_login d = calls @ [Alert (failure_message e)] \<and>
         (\<forall>r dt m. prop_of e ''response'' = Obj r \<and> prop_of r ''data'' = Obj dt \<and>
                    prop_of dt ''message'' = Str m \<and> m \<noteq> [] \<longrightarrow> failure_message e = Str m) \<and>
         (opt_get (opt_get (prop_of e ''response'') ''data'') ''message'' \<in> {Undefined, Null, Str []}
            \<longrightarrow> failure_message e = Str ''Login failed'')"
proof (intro conjI allI impI)
  show "onSubmit ctx_login d = calls @ [Alert (failure_message e)]"
    using assms by (simp add: onSubmit_def)
next
  fix r dt m
  assume "prop_of e ''response'' = Obj r \<and> prop_of r ''data'' = Obj dt \<and>
          prop_of dt ''message'' = Str m \<and> m \<noteq> []"
  then show "failure_message e = Str m"
    by (simp add: failure_message_def opt_get_def truthy_def)
next
  assume "opt_get (opt_get (prop_of e ''response'') ''data'') ''message'' \<in> {Undefined, Null, Str []}"
  then show "failure_message e = Str ''Login failed''"
    by (auto simp: failure_message_def truthy_def)
qed

theorem onSubmit_failure_witness:
  "refused_login (prop_of form0 ''email'') (prop_of form0 ''password'') =
     ([], Inl [(''response'', Obj [(''status'', Num 401),
                                   (''data'', Obj [(''message'', Str ''Invalid credentials'')])])]) \<and>
   onSubmit refused_login form0 = [Alert (Str ''Invalid credentials'')]"
proof -
  let ?e = "[(''response'', Obj [(''status'', Num 401),
                                   (''data'', Obj [(''message'', Str ''Invalid credentials'')])])]"
  have h: "refused_login (prop_of form0 ''email'') (prop_of form0 ''password'') = ([], Inl ?e)"
    by (simp add: refused_login_def)
  have "failure_message ?e = Str ''Invalid credentials''"
    by (simp add: failure_message_def opt_get_def prop_of_def truthy_def)
  with onSubmit_failure[of refused_login form0 "[]" ?e, OF h] h show ?thesis by simp
qed

section \<open>Properties of converting a lead\<close>

lemma map_of_replace_same:
  "k \<in> fst ` set d \<Longrightarrow> map_of (map (\<lambda>p. if fst p = k then (k, v) else p) d) k = Some v"
  by (induction d) auto

lemma map_of_replace_other:
  "k1 \<noteq> k \<Longrightarrow> map_of (map (\<lambda>p. if fst p = k then (k, v) else p) d) k1 = map_of d k1"
  by (induction d) auto

lemma map_of_set_prop_same: "map_of (set_prop d k v) k = Some v"
proof (cases "k \<in> fst ` set d")
  case True
  then show ?thesis by (simp add: set_prop_def map_of_replace_same)
next
  case False
  then have "map_of d k = None" by (simp add: map_of_eq_None_iff)
  with False show ?thesis by (simp add: set_prop_def map_add_def)
qed

lemma map_of_set_prop_other: "k1 \<noteq> k \<Longrightarrow> map_of (set_prop d k v) k1 = map_of d k1"
  by (simp add: set_prop_def map_of_replace_other map_add_def split: option.splits)

lemma prop_of_set_prop:
  "prop_of (set_prop d k v) k = v" "k1 \<noteq> k \<Longrightarrow> prop_of (set_prop d k v) k1 = prop_of d k1"
  by (simp_all add: prop_of_def map_of_set_prop_same map_of_set_prop_other)

lemma converted_props:
  "prop_of (converted actor l) ''_id'' = prop_of l ''_id''"
  "prop_of (converted actor l) ''status'' = Str ''Closed Won''"
  "history_of (converted actor l) =
     history_of l @ [Obj [(''action'', Str ''converted''), (''by'', actor)]]"
  by (simp_all add: converted_def history_of_def prop_of_set_prop)


lemma find_converted:
  "find (\<lambda>x. prop_of x ''_id'' = lid)
     (map (\<lambda>x. if prop_of x ''_id'' = lid then converted actor x else x) xs) =
   map_option (converted actor) (find (\<lambda>x. prop_of x ''_id'' = lid) xs)"
  by (induction xs) (simp_all add: converted_props)

lemma convert_step:
  assumes "find (\<lambda>x. prop_of x ''_id'' = lid) (coll d Lead) = Some l"
  shows "\<exists>d1 c.
           convert actor lid d = Inr d1 \<and>
           coll d1 Customer = coll d Customer @ [c] \<and>
           prop_of c ''name'' = prop_of l ''name'' \<and>
           prop_of c ''email'' = prop_of l ''email'' \<and>
           prop_of c ''phone'' = prop_of l ''phone'' \<and>
           prop_of c ''owner'' = prop_of l ''assignedAgent'' \<and>
           coll d1 Lead =
             map (\<lambda>x. if prop_of x ''_id'' = lid then converted actor x else x) (coll d Lead) \<and>
           find (\<lambda>x. prop_of x ''_id'' = lid) (coll d1 Lead) = Some (converted actor l) \<and>
           length (coll d1 Activity) = length (coll d Activity) + 1"
  using assms
  by (simp add: convert_def create_def Let_def find_converted prop_of_simps)

text \<open>
  C3: converting a lead that exists succeeds, adds exactly one customer, made of the lead's
  name, email and phone and owned by the lead's agent, leaves the lead with status
  Closed Won and with exactly one more history entry, and keeps the number of leads. Any
  number \<open>n\<close> of conversions of the same lead adds exactly \<open>n\<close> customers and \<open>n\<close>
  history entries: one transition to Closed Won for each conversion.
\<close>

theorem convert_lead:
  assumes "find (\<lambda>x. prop_of x ''_id'' = lid) (coll d Lead) = Some l"
  shows "(\<exists>d1 c l1.
            convert actor lid d = Inr d1 \<and>
            coll d1 Customer = coll d Customer @ [c] \<and>
            prop_of c ''name'' = prop_of l ''name'' \<and>
            prop_of c ''email'' = prop_of l ''email'' \<and>
            prop_of c ''phone'' = prop_of l ''phone'' \<and>
            prop_of c ''owner'' = prop_of l ''assignedAgent'' \<and>
            find (\<lambda>x. prop_of x ''_id'' = lid) (coll d1 Lead) = Some l1 \<and>
            prop_of l1 ''status'' = Str ''Closed Won'' \<and>
            (\<exists>entry. history_of l1 = history_of l @ [entry]) \<and>
            length (coll d1 Lead) = length (coll d Lead)) \<and>
         (\<forall>n. \<exists>dn ln.
            convert_times n actor lid d = Inr dn \<and>
            length (coll dn Customer) = length (coll d Customer) + n \<and>
            find (\<lambda>x. prop_of x ''_id'' = lid) (coll dn Lead) = Some ln \<and>
            length (history_of ln) = length (history_of l) + n \<and>
            (0 < n \<longrightarrow> prop_of ln ''status'' = Str ''Closed Won''))"
proof
  from convert_step[OF assms, of actor] obtain d1 c where
    "convert actor lid d = Inr d1" "coll d1 Customer = coll d Customer @ [c]"
    "prop_of c ''name'' = prop_of l ''name''" "prop_of c ''email'' = prop_of l ''email''"
    "prop_of c ''phone'' = prop_of l ''phone''" "prop_of c ''owner'' = prop_of l ''assignedAgent''"
    "coll d1 Lead =
       map (\<lambda>x. if prop_of x ''_id'' = lid then converted actor x else x) (coll d Lead)"
    "find (\<lambda>x. prop_of x ''_id'' = lid) (coll d1 Lead) = Some (converted actor l)"
    by blast
  then show "\<exists>d1 c l1.
            convert actor lid d = Inr d1 \<and>
            coll d1 Customer = coll d Customer @ [c] \<and>
            prop_of c ''name'' = prop_of l ''name'' \<and>
            prop_of c ''email'' = prop_of l ''email'' \<and>
            prop_of c ''phone'' = prop_of l ''phone'' \<and>
            prop_of c ''owner'' = prop_of l ''assignedAgent'' \<and>
            find (\<lambda>x. prop_of x ''_id'' = lid) (coll d1 Lead) = Some l1 \<and>
            prop_of l1 ''status'' = Str ''Closed Won'' \<and>
            (\<exists>entry. history_of l1 = history_of l @ [entry]) \<and>
            length (coll d1 Lead) = length (coll d Lead)"
    by (intro exI[of _ d1] exI[of _ c] exI[of _ "converted actor l"])
      (simp add: converted_props)
next
  show "\<forall>n. \<exists>dn ln.
            convert_times n actor lid d = Inr dn \<and>
            length (coll dn Customer) = length (coll d Customer) + n \<and>
            find (\<lambda>x. prop_of x ''_id'' = lid) (coll dn Lead) = Some ln \<and>
            length (history_of ln) = length (history_of l) + n \<and>
            (0 < n \<longrightarrow> prop_of ln ''status'' = Str ''Closed Won'')"
  proof
    fix n
    from assms show "\<exists>dn ln.
            convert_times n actor lid d = Inr dn \<and>
            length (coll dn Customer) = length (coll d Customer) + n \<and>
            find (\<lambda>x. prop_of x ''_id'' = lid) (coll dn Lead) = Some ln \<and>
            length (history_of ln) = length (history_of l) + n \<and>
            (0 < n \<longrightarrow> prop_of ln ''status'' = Str ''Closed Won'')"
    proof (induction n arbitrary: d l)
      case 0
      then show ?case by simp
    next
      case (Suc n)
      from convert_step[OF Suc.prems, of actor] obtain d1 c where
        c1: "convert actor lid d = Inr d1" and cu: "coll d1 Customer = coll d Customer @ [c]"
        and f1: "find (\<lambda>x. prop_of x ''_id'' = lid) (coll d1 Lead) = Some (converted actor l)"
        by blast
      from Suc.IH[OF f1] obtain dn ln where
        ct: "convert_times n actor lid d1 = Inr dn"
        and lc: "length (coll dn Customer) = length (coll d1 Customer) + n"
        and fn: "find (\<lambda>x. prop_of x ''_id'' = lid) (coll dn Lead) = Some ln"
        and lh: "length (history_of ln) = length (history_of (converted actor l)) + n"
        and st: "0 < n \<longrightarrow> prop_of ln ''status'' = Str ''Closed Won''"
        by blast
      have "prop_of ln ''status'' = Str ''Closed Won''"
      proof (cases n)
        case 0
        with ct fn f1 show ?thesis by (simp add: converted_props)
      next
        case (Suc m)
        with st show ?thesis by simp
      qed
      with c1 ct lc fn lh cu show ?case
        by (intro exI[of _ dn] exI[of _ ln]) (simp add: converted_props)
    qed
  qed
qed

theorem convert_lead_witness:
  "find (\<lambda>x. prop_of x ''_id'' = ObjectId 1) (coll crm0 Lead) = Some lead0 \<and>
   (\<exists>d1. convert (ObjectId 0) (ObjectId 1) crm0 = Inr d1 \<and>
      coll d1 Customer =
        [[(''_id'', ObjectId 2), (''name'', Str ''Sam Lee''), (''email'', Str ''sam.lee@mail.com''),
          (''phone'', Str ''+916000000000''), (''owner'', ObjectId 0)]] \<and>
      map (\<lambda>x. prop_of x ''status'') (coll d1 Lead) = [Str ''Closed Won'']) \<and>
   (\<exists>d2 l2. convert_times 2 (ObjectId 0) (ObjectId 1) crm0 = Inr d2 \<and>
      length (coll d2 Customer) = 2 \<and>
      find (\<lambda>x. prop_of x ''_id'' = ObjectId 1) (coll d2 Lead) = Some l2 \<and>
      length (history_of l2) = 3 \<and> prop_of l2 ''status'' = Str ''Closed Won'')"
proof -
  have h: "find (\<lambda>x. prop_of x ''_id'' = ObjectId 1) (coll crm0 Lead) = Some lead0"
    by (simp add: crm0_def lead0_def prop_of_simps)
  have one: "\<exists>d1. convert (ObjectId 0) (ObjectId 1) crm0 = Inr d1 \<and>
      coll d1 Customer =
        [[(''_id'', ObjectId 2), (''name'', Str ''Sam Lee''), (''email'', Str ''sam.lee@mail.com''),
          (''phone'', Str ''+916000000000''), (''owner'', ObjectId 0)]] \<and>
      map (\<lambda>x. prop_of x ''status'') (coll d1 Lead) = [Str ''Closed Won'']"
    by (simp add: crm0_def lead0_def prop_of_simps converted_def set_prop_def create_def
        convert_def Let_def history_of_def)
  from convert_lead[OF h, of "ObjectId 0"] obtain d2 l2 where
    "convert_times 2 (ObjectId 0) (ObjectId 1) crm0 = Inr d2"
    "length (coll d2 Customer) = length (coll crm0 Customer) + 2"
    "find (\<lambda>x. prop_of x ''_id'' = ObjectId 1) (coll d2 Lead) = Some l2"
    "length (history_of l2) = length (history_of lead0) + 2"
    "prop_of l2 ''status'' = Str ''Closed Won''"
    by (metis zero_less_numeral)
  then have "\<exists>d2 l2. convert_times 2 (ObjectId 0) (ObjectId 1) crm0 = Inr d2 \<and>
      length (coll d2 Customer) = 2 \<and>
      find (\<lambda>x. prop_of x ''_id'' = ObjectId 1) (coll d2 Lead) = Some l2 \<and>
      length (history_of l2) = 3 \<and> prop_of l2 ''status'' = Str ''Closed Won''"
    by (intro exI[of _ d2] exI[of _ l2])
      (simp add: crm0_def lead0_def history_of_def prop_of_simps)
  with h one show ?thesis by blast
qed

end
